theory Spec2Isabelle
  imports Complex_Main "HOL-Library.Multiset"
begin

section \<open>Data model (types/stacypilot and the component state)\<close>

text \<open>
  The inputs of the functions are finite JavaScript numbers, modelled as real numbers:
  sample values, times, pixel positions and durations are \<^typ>\<open>real\<close>, array lengths
  and loop counters are \<^typ>\<open>nat\<close>. A division may leave the finite numbers: the
  quotients of the coordinate mapping and of the beat detector have the type \<open>number\<close>
  below, and so has what is computed from them. The test \<open>!duration\<close> of the source is
  \<open>duration = 0\<close> on real numbers.
\<close>

datatype number = Finite real | PosInfinity | NegInfinity | NaN

text \<open>
  \<open>x / y\<close> as JavaScript computes it: a zero divisor gives an infinity, or NaN for
  \<open>0 / 0\<close>.
\<close>

definition jsDivide :: "real \<Rightarrow> real \<Rightarrow> number" where
  "jsDivide x y =
     (if y \<noteq> 0 then Finite (x / y)
      else if 0 < x then PosInfinity
      else if x < 0 then NegInfinity
      else NaN)"

text \<open>
  The product of a number and a finite number: an infinity keeps or changes its sign
  with the sign of the factor, and gives NaN with the factor 0.
\<close>

fun jsTimes :: "number \<Rightarrow> real \<Rightarrow> number" where
  "jsTimes (Finite x) y = Finite (x * y)"
| "jsTimes PosInfinity y = (if 0 < y then PosInfinity else if y < 0 then NegInfinity else NaN)"
| "jsTimes NegInfinity y = (if 0 < y then NegInfinity else if y < 0 then PosInfinity else NaN)"
| "jsTimes NaN y = NaN"

text \<open>\<open>Math.min\<close> and \<open>Math.max\<close> of a finite number and a number: NaN stays NaN.\<close>

fun mathMin :: "real \<Rightarrow> number \<Rightarrow> number" where
  "mathMin x (Finite y) = Finite (min x y)"
| "mathMin x PosInfinity = Finite x"
| "mathMin x NegInfinity = NegInfinity"
| "mathMin x NaN = NaN"

fun mathMax :: "real \<Rightarrow> number \<Rightarrow> number" where
  "mathMax x (Finite y) = Finite (max x y)"
| "mathMax x PosInfinity = PosInfinity"
| "mathMax x NegInfinity = Finite x"
| "mathMax x NaN = NaN"

record BeatData =
  time :: real
  strength :: number

datatype LightType =
    HeadsA | HeadsB
  | BarsA | BarsB
  | LEDsA | LEDsB | LEDsC
  | StrobesA | StrobesB
  | WashesA

datatype CommandType =
    On | Off | FadeOn | FadeOff
  | Cue | Action
  | BeamMode | BeamThickness | GoboSpread
  | Tilt | Pan | MotorSpeed
  | RotateGobo | Follow | StopFollowing
  | Color | SmoothColor | AnimatedGradients
  | SetGlobalCueSetting | SetCueSetting | LoopCues
  | CueSpeed | FadeSpeed | Dimness
  | Reset | HardReset

text \<open>
  Of \<open>CommandParameters\<close> only the fields read by the functions below are kept: the lane
  \<open>lightType\<close> and the optional \<open>fadeSpeed\<close> (\<open>None\<close> is \<open>undefined\<close>).
\<close>

record CommandParameters =
  lightType :: LightType
  fadeSpeed :: "real option"

record StacyCommand =
  id :: string
  time :: real
  type :: CommandType
  parameters :: CommandParameters

section \<open>Timeline: command durations and the coordinate mapping\<close>

text \<open>\<open>getCommandDuration\<close>: a \<open>switch\<close> on the command type; \<open>??\<close> replaces only \<open>undefined\<close>.\<close>

definition getCommandDuration :: "StacyCommand \<Rightarrow> real" where
  "getCommandDuration command =
     (case type command of
        FadeOn \<Rightarrow> (case fadeSpeed (parameters command) of Some v \<Rightarrow> v | None \<Rightarrow> 1)
      | FadeOff \<Rightarrow> (case fadeSpeed (parameters command) of Some v \<Rightarrow> v | None \<Rightarrow> 1)
      | Color \<Rightarrow> 2
      | Cue \<Rightarrow> 3
      | _ \<Rightarrow> 1 / 10)"

text \<open>\<open>timelineWidth = Math.min(20000, Math.max(800, duration * 60 * zoom))\<close> (Timeline).\<close>

definition timelineWidth :: "real \<Rightarrow> real \<Rightarrow> real" where
  "timelineWidth duration zoom = min 20000 (max 800 (duration * 60 * zoom))"

text \<open>\<open>waveformDisplayWidth = Math.max(800, duration * 60 * zoom)\<close> (AudioPlayer).\<close>

definition waveformDisplayWidth :: "real \<Rightarrow> real \<Rightarrow> real" where
  "waveformDisplayWidth duration zoom = max 800 (duration * 60 * zoom)"

text \<open>
  \<open>timeToPixel\<close> and \<open>pixelToTime\<close>: the guard \<open>if (!duration) return 0\<close>, then the
  quotient and the product.
\<close>

definition timeToPixel :: "real \<Rightarrow> real \<Rightarrow> real \<Rightarrow> number" where
  "timeToPixel duration zoom t =
     (if duration = 0 then Finite 0
      else jsTimes (jsDivide t duration) (timelineWidth duration zoom))"

definition pixelToTime :: "real \<Rightarrow> real \<Rightarrow> real \<Rightarrow> number" where
  "pixelToTime duration zoom pixel =
     (if duration = 0 then Finite 0
      else jsTimes (jsDivide pixel (timelineWidth duration zoom)) duration)"

text \<open>
  The clamp of the specification, \<open>clamp(lo, x, hi)\<close>, written from its words: \<open>x\<close> when
  it lies between the bounds, the nearer bound otherwise.
\<close>

definition clamp_spec :: "real \<Rightarrow> real \<Rightarrow> real \<Rightarrow> real" where
  "clamp_spec lo x hi = (if x < lo then lo else if hi < x then hi else x)"

subsection \<open>Dragging a command\<close>

text \<open>
  The drag state of the Timeline component (three \<open>useState\<close> cells). \<open>dragCommand\<close> is
  a single optional command.
\<close>

record drag_state =
  isDragging :: bool
  dragCommand :: "StacyCommand option"
  dragOffset :: real

text \<open>
  \<open>handleCommandMouseDown\<close>: \<open>clientX\<close> is the pointer, \<open>rectLeft\<close> the left edge of the
  command's element.
\<close>

definition handleCommandMouseDown :: "real \<Rightarrow> real \<Rightarrow> StacyCommand \<Rightarrow> drag_state \<Rightarrow> drag_state" where
  "handleCommandMouseDown clientX rectLeft command s =
     \<lparr>isDragging = True, dragCommand = Some command, dragOffset = clientX - rectLeft\<rparr>"

text \<open>
  \<open>handleMouseMove\<close>: \<open>timelineLeft\<close> is the left edge of the timeline element, \<open>None\<close>
  when \<open>timelineRef.current\<close> is null. The result is the call
  \<open>onCommandUpdate(dragCommand.id, { time: newTime })\<close> that the handler makes, \<open>None\<close>
  when it returns without making one.
\<close>

definition handleMouseMove ::
  "real \<Rightarrow> real \<Rightarrow> real option \<Rightarrow> real \<Rightarrow> drag_state \<Rightarrow> (string \<times> number) option" where
  "handleMouseMove duration zoom timelineLeft clientX s =
     (if \<not> isDragging s then None
      else case dragCommand s of
        None \<Rightarrow> None
      | Some command \<Rightarrow>
         (case timelineLeft of
            None \<Rightarrow> None
          | Some rectLeft \<Rightarrow>
             (let x = clientX - rectLeft - dragOffset s;
                  newTime = mathMax 0 (mathMin duration (pixelToTime duration zoom x))
              in Some (id command, newTime))))"

definition handleMouseUp :: "drag_state \<Rightarrow> drag_state" where
  "handleMouseUp s = \<lparr>isDragging = False, dragCommand = None, dragOffset = 0\<rparr>"

text \<open>
  \<open>updateCommand\<close> of the parent component, which \<open>onCommandUpdate\<close> is bound to, for an
  update \<open>{ time: newTime }\<close>: every command with the given id gets the new time, and the
  list is sorted by time again.
\<close>

definition updateCommand :: "StacyCommand list \<Rightarrow> string \<Rightarrow> real \<Rightarrow> StacyCommand list" where
  "updateCommand commands commandId newTime =
     sort_key time (map (\<lambda>cmd. if id cmd = commandId then cmd\<lparr>time := newTime\<rparr> else cmd) commands)"

subsection \<open>Laying out the commands of a lane in rows\<close>

text \<open>
  The end of a command is the sum \<open>command.time + getCommandDuration(command)\<close>, which
  the source computes in double-precision arithmetic: the sum is rounded, so that it may
  differ from the sum of the real numbers, and may even be the time itself when the
  duration is tiny. The addition of the machine is the parameter \<open>fadd\<close> of the layout
  functions, and nothing is assumed of it: what is proved below holds for every rounding.
  Comparisons of two numbers are exact, and so is the sign of the difference
  \<open>a.time - b.time\<close> that the sort looks at.
\<close>

definition commandEnd :: "(real \<Rightarrow> real \<Rightarrow> real) \<Rightarrow> StacyCommand \<Rightarrow> real" where
  "commandEnd fadd command = fadd (time command) (getCommandDuration command)"

text \<open>
  The inner loop of \<open>organizeCommandsIntoTracks\<close>: the tracks are scanned in order and
  the command is pushed on the first one whose last command ends no later than the
  command starts. \<open>None\<close> is \<open>placedInTrack = false\<close> at the end of the scan.
\<close>

fun placeInTrack ::
  "(real \<Rightarrow> real \<Rightarrow> real) \<Rightarrow> StacyCommand \<Rightarrow> StacyCommand list list \<Rightarrow> StacyCommand list list option" where
  "placeInTrack fadd command [] = None"
| "placeInTrack fadd command (track # tracks) =
     (if track = [] then map_option ((#) track) (placeInTrack fadd command tracks)
      else if fadd (time (last track)) (getCommandDuration (last track)) \<le> time command
      then Some ((track @ [command]) # tracks)
      else map_option ((#) track) (placeInTrack fadd command tracks))"

text \<open>One turn of the outer loop: a command that fits nowhere opens a new track.\<close>

definition placeCommand ::
  "(real \<Rightarrow> real \<Rightarrow> real) \<Rightarrow> StacyCommand list list \<Rightarrow> StacyCommand \<Rightarrow> StacyCommand list list" where
  "placeCommand fadd tracks command =
     (case placeInTrack fadd command tracks of
        Some tracks' \<Rightarrow> tracks'
      | None \<Rightarrow> tracks @ [[command]])"

text \<open>
  The commands of the lane are filtered out and sorted by time with the comparator
  \<open>a.time - b.time\<close> (a stable sort, as \<open>sort_key\<close> is), then placed one by one.
\<close>

definition organizeCommandsIntoTracks ::
  "(real \<Rightarrow> real \<Rightarrow> real) \<Rightarrow> StacyCommand list \<Rightarrow> LightType \<Rightarrow> StacyCommand list list" where
  "organizeCommandsIntoTracks fadd commands lt =
     foldl (placeCommand fadd) []
       (sort_key time (filter (\<lambda>cmd. lightType (parameters cmd) = lt) commands))"

text \<open>
  The notions of the layout claim. A command occupies the half-open interval from its
  time to its end, the sum as the source computes it; two commands overlap when their
  intervals share an instant; \<open>overlapCount fadd cs t\<close> is the number of commands of \<open>cs\<close>
  whose interval holds \<open>t\<close>. \<open>maxOverlap fadd cs\<close> is the largest such number over all
  instants: it is computed over the start times only, and \<open>maxOverlap_greatest\<close> and
  \<open>maxOverlap_attained\<close> below show that this is the maximum over every instant.
\<close>

definition covers :: "(real \<Rightarrow> real \<Rightarrow> real) \<Rightarrow> StacyCommand \<Rightarrow> real \<Rightarrow> bool" where
  "covers fadd command t = (time command \<le> t \<and> t < commandEnd fadd command)"

definition overlaps :: "(real \<Rightarrow> real \<Rightarrow> real) \<Rightarrow> StacyCommand \<Rightarrow> StacyCommand \<Rightarrow> bool" where
  "overlaps fadd a b = (max (time a) (time b) < min (commandEnd fadd a) (commandEnd fadd b))"

definition overlapCount :: "(real \<Rightarrow> real \<Rightarrow> real) \<Rightarrow> StacyCommand list \<Rightarrow> real \<Rightarrow> nat" where
  "overlapCount fadd cs t = length (filter (\<lambda>c. covers fadd c t) cs)"

definition maxOverlap :: "(real \<Rightarrow> real \<Rightarrow> real) \<Rightarrow> StacyCommand list \<Rightarrow> nat" where
  "maxOverlap fadd cs = fold max (map (\<lambda>c. overlapCount fadd cs (time c)) cs) 0"

text \<open>
  The invariant of the outer loop: no track is empty, in every track each command ends
  no later than every later command of the track starts, and no command placed so far
  starts after \<open>bound\<close>.
\<close>

definition tracks_inv :: "(real \<Rightarrow> real \<Rightarrow> real) \<Rightarrow> StacyCommand list list \<Rightarrow> real \<Rightarrow> bool" where
  "tracks_inv fadd tracks bound =
     (\<forall>track \<in> set tracks.
        track \<noteq> [] \<and> sorted_wrt (\<lambda>a b. commandEnd fadd a \<le> time b) track
        \<and> (\<forall>a \<in> set track. time a \<le> bound))"

section \<open>AudioPlayer: following the playhead\<close>












section \<open>AudioPlayer: waveform and beats\<close>

text \<open>
  The decoded audio: \<open>channelData\<close> is \<open>getChannelData(0)\<close>, whose length is
  \<open>audioBuffer.length\<close>, and \<open>bufferDuration\<close> is \<open>audioBuffer.duration\<close>.
\<close>

record AudioBuffer =
  channelData :: "real list"
  bufferDuration :: real

text \<open>\<open>samples = Math.min(1500, Math.floor(audioBuffer.length / 1024))\<close>.\<close>

definition samples :: "AudioBuffer \<Rightarrow> nat" where
  "samples audioBuffer = min 1500 (length (channelData audioBuffer) div 1024)"

text \<open>
  \<open>blockSize = Math.floor(rawData.length / samples)\<close>. When \<open>samples\<close> is 0 the source
  computes a non-finite number here and the model 0; the loop, where alone it is used,
  has no turn then.
\<close>

definition blockSize :: "AudioBuffer \<Rightarrow> nat" where
  "blockSize audioBuffer = length (channelData audioBuffer) div samples audioBuffer"

text \<open>\<open>rawData[j] || 0\<close>.\<close>

definition sampleAt :: "real list \<Rightarrow> nat \<Rightarrow> real" where
  "sampleAt rawData j = (if j < length rawData then rawData ! j else 0)"

text \<open>The inner loop over one block: the state is \<open>(peak, rms)\<close>, both 0 at the start.\<close>

definition blockScan :: "real list \<Rightarrow> nat \<Rightarrow> nat \<Rightarrow> real \<times> real" where
  "blockScan rawData blockStart blockEnd =
     fold (\<lambda>j (peak, rms).
             (max peak \<bar>sampleAt rawData j\<bar>, rms + sampleAt rawData j * sampleAt rawData j))
          [blockStart..<blockEnd] (0, 0)"

text \<open>
  The values of turn \<open>i\<close> of the outer loop: the peak of the block and its \<open>rms\<close> after
  \<open>rms = Math.sqrt(rms / (blockEnd - blockStart))\<close>.
\<close>

definition blockStats :: "AudioBuffer \<Rightarrow> nat \<Rightarrow> real \<times> real" where
  "blockStats audioBuffer i =
     (let rawData = channelData audioBuffer;
          blockStart = blockSize audioBuffer * i;
          blockEnd = min (blockStart + blockSize audioBuffer) (length rawData);
          (peak, rms) = blockScan rawData blockStart blockEnd
      in (peak, sqrt (rms / real (blockEnd - blockStart))))"

text \<open>The variables of the outer loop.\<close>

record analysis =
  waveformPoints :: "real list"
  beats :: "BeatData list"
  previousEnergy :: real

text \<open>Turn \<open>i\<close> of the outer loop; \<open>beatThreshold\<close> is 1.3.\<close>

definition analyseBlock :: "AudioBuffer \<Rightarrow> analysis \<Rightarrow> nat \<Rightarrow> analysis" where
  "analyseBlock audioBuffer a i =
     (let (peak, rms) = blockStats audioBuffer i;
          energy = rms;
          amplitude = max peak (rms * 2);
          beats' =
            (if energy > previousEnergy a * (13 / 10) \<and> energy > 1 / 10
             then beats a @
                  [\<lparr>BeatData.time = (real i / real (samples audioBuffer)) * bufferDuration audioBuffer,
                    strength = jsDivide energy (previousEnergy a)\<rparr>]
             else beats a)
      in \<lparr>waveformPoints = waveformPoints a @ [amplitude],
          beats = beats',
          previousEnergy = energy * (7 / 10) + previousEnergy a * (3 / 10)\<rparr>)"

definition analyseBlocks :: "AudioBuffer \<Rightarrow> analysis" where
  "analyseBlocks audioBuffer =
     foldl (analyseBlock audioBuffer)
       \<lparr>waveformPoints = [], beats = [], previousEnergy = 0\<rparr>
       [0..<samples audioBuffer]"

text \<open>\<open>Math.max(...waveformPoints)\<close>; \<open>None\<close> is the \<open>-Infinity\<close> of no arguments.\<close>

definition maxVal :: "real list \<Rightarrow> real option" where
  "maxVal points = (case points of [] \<Rightarrow> None | x # rest \<Rightarrow> Some (fold max rest x))"

definition normalizedWaveform :: "real list \<Rightarrow> real list" where
  "normalizedWaveform points =
     map (\<lambda>val. case maxVal points of
                   None \<Rightarrow> 0
                 | Some m \<Rightarrow> if m > 0 then val / m else 0) points"

text \<open>
  The state that \<open>generateAdvancedWaveform\<close> writes, and what may be thrown inside its
  \<open>try\<close> block: fetching, decoding and closing the audio context are the steps that can
  fail.
\<close>

record player_state =
  waveformData :: "real list"
  beatData :: "BeatData list"
  isLoadingWaveform :: bool

datatype failure = FetchFailed | DecodeFailed | CloseFailed

text \<open>
  \<open>generateAdvancedWaveform\<close>: \<open>sourcePresent\<close> is the test of the first line (an audio
  element and a url or a file), \<open>decoded\<close> the outcome of the steps awaited in the \<open>try\<close>
  block. The \<open>catch\<close> branch writes the fallback, the \<open>finally\<close> branch clears the
  loading flag.
\<close>

definition generateAdvancedWaveform :: "bool \<Rightarrow> failure + AudioBuffer \<Rightarrow> player_state \<Rightarrow> player_state" where
  "generateAdvancedWaveform sourcePresent decoded s =
     (if \<not> sourcePresent then s
      else case decoded of
        Inr audioBuffer \<Rightarrow>
          (let a = analyseBlocks audioBuffer
           in \<lparr>waveformData = normalizedWaveform (waveformPoints a),
               beatData = beats a,
               isLoadingWaveform = False\<rparr>)
      | Inl error \<Rightarrow>
          \<lparr>waveformData = replicate 100 (1 / 10), beatData = [], isLoadingWaveform = False\<rparr>)"

section \<open>Theorems\<close>

subsection \<open>Command durations\<close>

text \<open>
  C10. The derived duration of a command depends on its type and parameters only:
  FadeOn and FadeOff take the fadeSpeed parameter, or 1 second when it is absent; Color
  takes 2 seconds; Cue takes 3 seconds; every other command type takes the point-effect
  default of 0.1 seconds. The first conjunct says that two commands with the same type
  and parameters have the same duration, whatever their id and time.
\<close>

theorem getCommandDuration_values:
  "(type c = type c' \<and> parameters c = parameters c'
      \<longrightarrow> getCommandDuration c = getCommandDuration c')
   \<and> (type c \<in> {FadeOn, FadeOff} \<and> fadeSpeed (parameters c) = Some v
      \<longrightarrow> getCommandDuration c = v)
   \<and> (type c \<in> {FadeOn, FadeOff} \<and> fadeSpeed (parameters c) = None
      \<longrightarrow> getCommandDuration c = 1)
   \<and> (type c = Color \<longrightarrow> getCommandDuration c = 2)
   \<and> (type c = Cue \<longrightarrow> getCommandDuration c = 3)
   \<and> (type c \<notin> {FadeOn, FadeOff, Color, Cue} \<longrightarrow> getCommandDuration c = 1 / 10)"
  by (cases "type c") (auto simp: getCommandDuration_def)

theorem getCommandDuration_values_witness:
  "getCommandDuration \<lparr>id = ''a'', time = 4, type = FadeOn,
      parameters = \<lparr>lightType = HeadsA, fadeSpeed = Some 5\<rparr>\<rparr> = 5
   \<and> getCommandDuration \<lparr>id = ''b'', time = 0, type = FadeOff,
      parameters = \<lparr>lightType = BarsA, fadeSpeed = None\<rparr>\<rparr> = 1
   \<and> getCommandDuration \<lparr>id = ''c'', time = 1, type = Color,
      parameters = \<lparr>lightType = BarsA, fadeSpeed = Some 7\<rparr>\<rparr> = 2
   \<and> getCommandDuration \<lparr>id = ''d'', time = 1, type = Cue,
      parameters = \<lparr>lightType = BarsA, fadeSpeed = None\<rparr>\<rparr> = 3
   \<and> getCommandDuration \<lparr>id = ''e'', time = 1, type = Pan,
      parameters = \<lparr>lightType = BarsA, fadeSpeed = Some 7\<rparr>\<rparr> = 1 / 10"
  using getCommandDuration_values
    [of "\<lparr>id = ''a'', time = 4, type = FadeOn,
          parameters = \<lparr>lightType = HeadsA, fadeSpeed = Some 5\<rparr>\<rparr>" _ 5]
    getCommandDuration_values
    [of "\<lparr>id = ''b'', time = 0, type = FadeOff,
          parameters = \<lparr>lightType = BarsA, fadeSpeed = None\<rparr>\<rparr>"]
    getCommandDuration_values
    [of "\<lparr>id = ''c'', time = 1, type = Color,
          parameters = \<lparr>lightType = BarsA, fadeSpeed = Some 7\<rparr>\<rparr>"]
    getCommandDuration_values
    [of "\<lparr>id = ''d'', time = 1, type = Cue,
          parameters = \<lparr>lightType = BarsA, fadeSpeed = None\<rparr>\<rparr>"]
    getCommandDuration_values
    [of "\<lparr>id = ''e'', time = 1, type = Pan,
          parameters = \<lparr>lightType = BarsA, fadeSpeed = Some 7\<rparr>\<rparr>"]
  by simp

subsection \<open>Coordinate mapping\<close>

lemma timelineWidth_bounds: "800 \<le> timelineWidth duration zoom \<and> timelineWidth duration zoom \<le> 20000"
  by (simp add: timelineWidth_def)

lemma timeToPixel_finite:
  "timeToPixel duration zoom t
     = Finite (if duration = 0 then 0 else (t / duration) * timelineWidth duration zoom)"
  by (simp add: timeToPixel_def jsDivide_def)

lemma pixelToTime_finite:
  "pixelToTime duration zoom pixel
     = Finite (if duration = 0 then 0 else (pixel / timelineWidth duration zoom) * duration)"
proof -
  from timelineWidth_bounds [of duration zoom] have "timelineWidth duration zoom \<noteq> 0" by simp
  then show ?thesis by (simp add: pixelToTime_def jsDivide_def)
qed

lemma unguarded_quotient_not_finite: "jsTimes (jsDivide t 0) (timelineWidth 0 zoom) \<noteq> Finite r"
  by (simp add: jsDivide_def timelineWidth_def)

text \<open>
  C7. When the duration is 0, \<open>timeToPixel\<close> and \<open>pixelToTime\<close> both return exactly 0
  for every input and every zoom. This is the work of the guard: the quotient
  \<open>time / duration\<close> alone is an infinity or NaN at duration 0, and its product with the
  width is never a finite number. With the guard the result of both functions is a
  finite number for every duration, so never NaN, and no division by zero occurs: the
  divisor of \<open>timeToPixel\<close> is the duration, which is not 0 after the guard, and the
  divisor of \<open>pixelToTime\<close> is the width, which is at least 800.
\<close>

theorem zero_duration_maps_to_zero:
  "timeToPixel 0 zoom t = Finite 0
   \<and> pixelToTime 0 zoom pixel = Finite 0
   \<and> (\<forall>r. jsTimes (jsDivide t 0) (timelineWidth 0 zoom) \<noteq> Finite r)
   \<and> (\<exists>r. timeToPixel duration zoom t = Finite r)
   \<and> (\<exists>r. pixelToTime duration zoom pixel = Finite r)
   \<and> timelineWidth duration zoom \<noteq> 0"
proof -
  have "timeToPixel 0 zoom t = Finite 0" and "pixelToTime 0 zoom pixel = Finite 0"
    by (simp_all add: timeToPixel_def pixelToTime_def)
  moreover have "\<forall>r. jsTimes (jsDivide t 0) (timelineWidth 0 zoom) \<noteq> Finite r"
    using unguarded_quotient_not_finite by blast
  moreover have "\<exists>r. timeToPixel duration zoom t = Finite r"
    using timeToPixel_finite by blast
  moreover have "\<exists>r. pixelToTime duration zoom pixel = Finite r"
    using pixelToTime_finite by blast
  moreover from timelineWidth_bounds [of duration zoom] have "timelineWidth duration zoom \<noteq> 0"
    by simp
  ultimately show ?thesis by blast
qed

theorem zero_duration_maps_to_zero_witness:
  "timeToPixel 0 1 60 = Finite 0
   \<and> pixelToTime 0 1 3600 = Finite 0
   \<and> jsTimes (jsDivide 60 0) (timelineWidth 0 1) = PosInfinity
   \<and> jsTimes (jsDivide 0 0) (timelineWidth 0 1) = NaN
   \<and> timeToPixel 120 1 60 = Finite 3600
   \<and> pixelToTime 120 1 3600 = Finite 60"
proof -
  from zero_duration_maps_to_zero [of 1 60 3600 120]
  have "timeToPixel 0 1 60 = Finite 0 \<and> pixelToTime 0 1 3600 = Finite 0"
    by blast
  moreover have "jsTimes (jsDivide 60 0) (timelineWidth 0 1) = PosInfinity
      \<and> jsTimes (jsDivide 0 0) (timelineWidth 0 1) = NaN"
    by (simp add: jsDivide_def timelineWidth_def)
  moreover have "timeToPixel 120 1 60 = Finite 3600 \<and> pixelToTime 120 1 3600 = Finite 60"
    by (simp add: timeToPixel_def pixelToTime_def jsDivide_def timelineWidth_def)
  ultimately show ?thesis by blast
qed

text \<open>
  C4. The Timeline computes its track width as the clamp of \<open>duration * 60 * zoom\<close>
  between 800 and 20000; with duration 120 and zoom 1 the width is 7200 and
  \<open>timeToPixel 60\<close> is 3600. The AudioPlayer computes the width of its waveform from
  the same product without the upper bound: for a track of 1000 seconds at zoom 1 it
  is 60000 pixels, where the clamp and the Timeline give 20000.
\<close>

theorem track_width_clamp:
  "timelineWidth duration zoom = clamp_spec 800 (duration * 60 * zoom) 20000
   \<and> timelineWidth 120 1 = 7200
   \<and> timeToPixel 120 1 60 = Finite 3600
   \<and> waveformDisplayWidth 1000 1 = 60000
   \<and> clamp_spec 800 (1000 * 60 * 1) 20000 = 20000
   \<and> timelineWidth 1000 1 = 20000"
  by (simp add: timelineWidth_def waveformDisplayWidth_def clamp_spec_def timeToPixel_def
      jsDivide_def min_def max_def)

subsection \<open>Dragging a command\<close>

lemma updateCommand_mset:
  "mset (updateCommand commands commandId newTime)
     = image_mset (\<lambda>cmd. if id cmd = commandId then cmd\<lparr>time := newTime\<rparr> else cmd) (mset commands)"
  by (simp add: updateCommand_def)

lemma updateCommand_sorted: "sorted (map time (updateCommand commands commandId newTime))"
  by (simp add: updateCommand_def)

lemma updateCommand_moves:
  assumes "cmd \<in> set commands" and "id cmd = commandId"
  shows "cmd\<lparr>time := newTime\<rparr> \<in> set (updateCommand commands commandId newTime)"
proof -
  from assms have "cmd\<lparr>time := newTime\<rparr>
      \<in> (\<lambda>cmd. if id cmd = commandId then cmd\<lparr>time := newTime\<rparr> else cmd) ` set commands"
    by (intro image_eqI [where x = cmd]) simp_all
  then show ?thesis unfolding updateCommand_def set_sort set_map .
qed

lemma updateCommand_keeps:
  assumes "cmd \<in> set commands" and "id cmd \<noteq> commandId"
  shows "cmd \<in> set (updateCommand commands commandId newTime)"
proof -
  from assms have "cmd
      \<in> (\<lambda>cmd. if id cmd = commandId then cmd\<lparr>time := newTime\<rparr> else cmd) ` set commands"
    by (intro image_eqI [where x = cmd]) simp_all
  then show ?thesis unfolding updateCommand_def set_sort set_map .
qed

lemma updateCommand_sets_time:
  assumes "cmd \<in> set (updateCommand commands commandId newTime)" and "id cmd = commandId"
  shows "time cmd = newTime"
proof -
  from assms(1) obtain x where x: "x \<in> set commands"
    and cmd: "cmd = (if id x = commandId then x\<lparr>time := newTime\<rparr> else x)"
    unfolding updateCommand_def set_sort set_map by blast
  show ?thesis
  proof (cases "id x = commandId")
    case True
    with cmd show ?thesis by simp
  next
    case False
    with cmd assms(2) show ?thesis by simp
  qed
qed

lemma updateCommand_keeps_ids:
  "id ` set (updateCommand commands commandId newTime) = id ` set commands"
proof -
  have "map id (map (\<lambda>cmd. if id cmd = commandId then cmd\<lparr>time := newTime\<rparr> else cmd) commands)
          = map id commands"
    by (induction commands) simp_all
  then have "set (map id (map (\<lambda>cmd. if id cmd = commandId then cmd\<lparr>time := newTime\<rparr> else cmd) commands))
          = set (map id commands)"
    by (rule arg_cong)
  then show ?thesis
    unfolding updateCommand_def set_sort set_map .
qed

text \<open>
  C8. While a command is dragged, every pointer move makes a call of \<open>onCommandUpdate\<close>
  for the dragged command (a live update, before the release), whose time is
  \<open>pixelToTime\<close> of the pointer position minus the captured offset, clamped between 0
  and the duration. A position that maps outside of this range is clamped, and the move
  is never dropped. Applied by \<open>updateCommand\<close>, the update gives the new time to the
  commands with this id and leaves every other command as it is: the new list holds
  the commands of the old one, those with this id moved to the new time, in the order
  of their times. The duration of a track is not negative.
\<close>

theorem handleMouseMove_clamps:
  assumes "isDragging s" and "dragCommand s = Some c" and "0 \<le> duration"
  shows "\<exists>newTime p.
           handleMouseMove duration zoom (Some rectLeft) clientX s = Some (id c, Finite newTime)
         \<and> pixelToTime duration zoom (clientX - rectLeft - dragOffset s) = Finite p
         \<and> newTime = clamp_spec 0 p duration
         \<and> 0 \<le> newTime \<and> newTime \<le> duration
         \<and> mset (updateCommand commands (id c) newTime)
             = image_mset (\<lambda>cmd. if id cmd = id c then cmd\<lparr>time := newTime\<rparr> else cmd)
                 (mset commands)
         \<and> sorted (map time (updateCommand commands (id c) newTime))
         \<and> (\<forall>cmd \<in> set commands.
               id cmd = id c \<longrightarrow> cmd\<lparr>time := newTime\<rparr> \<in> set (updateCommand commands (id c) newTime))
         \<and> (\<forall>cmd \<in> set commands.
               id cmd \<noteq> id c \<longrightarrow> cmd \<in> set (updateCommand commands (id c) newTime))
         \<and> (\<forall>cmd \<in> set (updateCommand commands (id c) newTime).
               id cmd = id c \<longrightarrow> time cmd = newTime)
         \<and> (id c \<in> id ` set commands
               \<longrightarrow> id c \<in> id ` set (updateCommand commands (id c) newTime))"
proof -
  let ?x = "clientX - rectLeft - dragOffset s"
  let ?p = "if duration = 0 then 0 else (?x / timelineWidth duration zoom) * duration"
  let ?t = "max 0 (min duration ?p)"
  have p: "pixelToTime duration zoom ?x = Finite ?p"
    by (rule pixelToTime_finite)
  have move: "handleMouseMove duration zoom (Some rectLeft) clientX s = Some (id c, Finite ?t)"
    using assms(1,2) by (simp add: handleMouseMove_def Let_def p)
  have clamp: "?t = clamp_spec 0 ?p duration"
    using assms(3) by (simp add: clamp_spec_def min_def max_def)
  have range: "0 \<le> ?t \<and> ?t \<le> duration"
    using assms(3) by (simp add: min_def max_def)
  have ms: "mset (updateCommand commands (id c) ?t)
      = image_mset (\<lambda>cmd. if id cmd = id c then cmd\<lparr>time := ?t\<rparr> else cmd) (mset commands)"
    by (rule updateCommand_mset)
  have srt: "sorted (map time (updateCommand commands (id c) ?t))"
    by (rule updateCommand_sorted)
  have mv: "\<forall>cmd \<in> set commands.
      id cmd = id c \<longrightarrow> cmd\<lparr>time := ?t\<rparr> \<in> set (updateCommand commands (id c) ?t)"
    using updateCommand_moves by blast
  have kp: "\<forall>cmd \<in> set commands. id cmd \<noteq> id c \<longrightarrow> cmd \<in> set (updateCommand commands (id c) ?t)"
    using updateCommand_keeps by blast
  have upd: "\<forall>cmd \<in> set (updateCommand commands (id c) ?t). id cmd = id c \<longrightarrow> time cmd = ?t"
    using updateCommand_sets_time by blast
  have ids: "id c \<in> id ` set commands \<longrightarrow> id c \<in> id ` set (updateCommand commands (id c) ?t)"
    unfolding updateCommand_keeps_ids by simp
  show ?thesis
  proof (intro exI conjI)
    show "handleMouseMove duration zoom (Some rectLeft) clientX s = Some (id c, Finite ?t)"
      by (rule move)
    show "pixelToTime duration zoom ?x = Finite ?p" by (rule p)
    show "?t = clamp_spec 0 ?p duration" by (rule clamp)
    show "0 \<le> ?t" and "?t \<le> duration" using range by blast+
    show "mset (updateCommand commands (id c) ?t)
      = image_mset (\<lambda>cmd. if id cmd = id c then cmd\<lparr>time := ?t\<rparr> else cmd) (mset commands)"
      by (rule ms)
    show "sorted (map time (updateCommand commands (id c) ?t))" by (rule srt)
    show "\<forall>cmd \<in> set commands.
      id cmd = id c \<longrightarrow> cmd\<lparr>time := ?t\<rparr> \<in> set (updateCommand commands (id c) ?t)"
      by (rule mv)
    show "\<forall>cmd \<in> set commands. id cmd \<noteq> id c \<longrightarrow> cmd \<in> set (updateCommand commands (id c) ?t)"
      by (rule kp)
    show "\<forall>cmd \<in> set (updateCommand commands (id c) ?t). id cmd = id c \<longrightarrow> time cmd = ?t"
      by (rule upd)
    show "id c \<in> id ` set commands \<longrightarrow> id c \<in> id ` set (updateCommand commands (id c) ?t)"
      by (rule ids)
  qed
qed

theorem handleMouseMove_clamps_witness:
  "handleMouseMove 100 (1 / 6) (Some 0) 210
     \<lparr>isDragging = True, dragCommand = Some \<lparr>id = ''c1'', time = 3, type = Color, parameters = \<lparr>lightType = HeadsA, fadeSpeed = None\<rparr>\<rparr>, dragOffset = 10\<rparr>
   = Some (''c1'', Finite 20)
   \<and> updateCommand
       [\<lparr>id = ''c1'', time = 3, type = Color, parameters = \<lparr>lightType = HeadsA, fadeSpeed = None\<rparr>\<rparr>,
        \<lparr>id = ''c2'', time = 5, type = Cue, parameters = \<lparr>lightType = BarsA, fadeSpeed = None\<rparr>\<rparr>] ''c1'' 20
     = [\<lparr>id = ''c2'', time = 5, type = Cue, parameters = \<lparr>lightType = BarsA, fadeSpeed = None\<rparr>\<rparr>,
        \<lparr>id = ''c1'', time = 20, type = Color, parameters = \<lparr>lightType = HeadsA, fadeSpeed = None\<rparr>\<rparr>]"
proof -
  let ?s = "\<lparr>isDragging = True, dragCommand = Some \<lparr>id = ''c1'', time = 3, type = Color, parameters = \<lparr>lightType = HeadsA, fadeSpeed = None\<rparr>\<rparr>, dragOffset = 10\<rparr>"
  let ?c = "\<lparr>id = ''c1'', time = 3, type = Color, parameters = \<lparr>lightType = HeadsA, fadeSpeed = None\<rparr>\<rparr>"
  let ?cmds = "[\<lparr>id = ''c1'', time = 3, type = Color, parameters = \<lparr>lightType = HeadsA, fadeSpeed = None\<rparr>\<rparr>,
        \<lparr>id = ''c2'', time = 5, type = Cue, parameters = \<lparr>lightType = BarsA, fadeSpeed = None\<rparr>\<rparr>]"
  have a: "isDragging ?s" and b: "dragCommand ?s = Some ?c" and d: "(0::real) \<le> 100"
    by simp_all
  from handleMouseMove_clamps [OF a b d, of "1 / 6" 0 210 ?cmds]
  have "\<exists>newTime p. handleMouseMove 100 (1 / 6) (Some 0) 210 ?s = Some (id ?c, Finite newTime)
      \<and> pixelToTime 100 (1 / 6) (210 - 0 - dragOffset ?s) = Finite p
      \<and> newTime = clamp_spec 0 p 100"
    by (elim exE conjE) (intro exI conjI, assumption+)
  then obtain newTime p where
    mv: "handleMouseMove 100 (1 / 6) (Some 0) 210 ?s = Some (id ?c, Finite newTime)"
    and cl: "pixelToTime 100 (1 / 6) (210 - 0 - dragOffset ?s) = Finite p"
      "newTime = clamp_spec 0 p 100"
    by (elim exE conjE)
  from cl have "newTime = 20"
    by (simp add: pixelToTime_def jsDivide_def timelineWidth_def clamp_spec_def)
  with mv have "handleMouseMove 100 (1 / 6) (Some 0) 210 ?s = Some (''c1'', Finite 20)"
    by simp
  moreover have "updateCommand ?cmds ''c1'' 20
     = [\<lparr>id = ''c2'', time = 5, type = Cue, parameters = \<lparr>lightType = BarsA, fadeSpeed = None\<rparr>\<rparr>,
        \<lparr>id = ''c1'', time = 20, type = Color, parameters = \<lparr>lightType = HeadsA, fadeSpeed = None\<rparr>\<rparr>]"
    by (simp add: updateCommand_def)
  ultimately show ?thesis by simp
qed

subsection \<open>Rows of a lane\<close>

lemma placeInTrack_Some:
  "placeInTrack fadd c tracks = Some tracks' \<Longrightarrow>
     \<exists>pre track post. tracks = pre @ track # post \<and> track \<noteq> []
        \<and> commandEnd fadd (last track) \<le> time c \<and> tracks' = pre @ (track @ [c]) # post"
proof (induction tracks arbitrary: tracks')
  case Nil
  then show ?case by simp
next
  case (Cons track tracks)
  show ?case
  proof (cases "track \<noteq> [] \<and> commandEnd fadd (last track) \<le> time c")
    case True
    with Cons.prems have "tracks' = [] @ (track @ [c]) # tracks"
      by (simp add: commandEnd_def)
    with True show ?thesis by (metis append_Nil)
  next
    case False
    with Cons.prems obtain rest where rest: "placeInTrack fadd c tracks = Some rest"
      and t': "tracks' = track # rest"
      by (auto simp: commandEnd_def split: if_splits)
    from Cons.IH [OF rest] obtain pre tr post where
      "tracks = pre @ tr # post" "tr \<noteq> []" "commandEnd fadd (last tr) \<le> time c"
      "rest = pre @ (tr @ [c]) # post" by blast
    with t' have "track # tracks = (track # pre) @ tr # post \<and> tr \<noteq> []
        \<and> commandEnd fadd (last tr) \<le> time c \<and> tracks' = (track # pre) @ (tr @ [c]) # post"
      by simp
    then show ?thesis by blast
  qed
qed

lemma placeInTrack_None:
  "placeInTrack fadd c tracks = None \<Longrightarrow> track \<in> set tracks \<Longrightarrow> track \<noteq> []
     \<Longrightarrow> time c < commandEnd fadd (last track)"
  by (induction tracks) (auto simp: commandEnd_def split: if_splits)

lemma mset_concat_placeCommand:
  "mset (concat (placeCommand fadd tracks c)) = mset (concat tracks) + {#c#}"
proof (cases "placeInTrack fadd c tracks")
  case None
  then show ?thesis by (simp add: placeCommand_def)
next
  case (Some tracks')
  from placeInTrack_Some [OF Some] obtain pre track post where
    "tracks = pre @ track # post" "tracks' = pre @ (track @ [c]) # post" by blast
  with Some show ?thesis by (simp add: placeCommand_def)
qed

lemma sorted_wrt_snoc_last:
  assumes "sorted_wrt R xs" and "xs \<noteq> []" and "R (last xs) c"
    and "\<And>a. a \<in> set xs \<Longrightarrow> R a (last xs) \<Longrightarrow> R a c"
  shows "sorted_wrt R (xs @ [c])"
proof -
  have "R a c" if a: "a \<in> set xs" for a
  proof -
    from assms(2) have xs: "xs = butlast xs @ [last xs]" by simp
    from a xs have "a \<in> set (butlast xs) \<or> a = last xs"
      by (metis Un_iff empty_iff empty_set insert_iff list.simps(15) set_append)
    then show ?thesis
    proof
      assume "a \<in> set (butlast xs)"
      moreover from assms(1) xs have "sorted_wrt R (butlast xs @ [last xs])" by simp
      ultimately have "R a (last xs)" by (simp add: sorted_wrt_append)
      with a assms(4) show ?thesis by blast
    next
      assume "a = last xs"
      with assms(3) show ?thesis by simp
    qed
  qed
  with assms(1) show ?thesis by (simp add: sorted_wrt_append)
qed

lemma tracks_inv_mono: "tracks_inv fadd tracks b \<Longrightarrow> b \<le> b' \<Longrightarrow> tracks_inv fadd tracks b'"
  unfolding tracks_inv_def by (meson order_trans)

lemma tracks_inv_placeCommand:
  assumes "tracks_inv fadd tracks (time c)"
  shows "tracks_inv fadd (placeCommand fadd tracks c) (time c)"
proof (cases "placeInTrack fadd c tracks")
  case None
  then have "placeCommand fadd tracks c = tracks @ [[c]]" by (simp add: placeCommand_def)
  with assms show ?thesis by (auto simp: tracks_inv_def)
next
  case (Some tracks')
  from placeInTrack_Some [OF Some] obtain pre track post where
    tr: "tracks = pre @ track # post" and ne: "track \<noteq> []"
    and fit: "commandEnd fadd (last track) \<le> time c"
    and t': "tracks' = pre @ (track @ [c]) # post" by blast
  from assms tr have srt: "sorted_wrt (\<lambda>a b. commandEnd fadd a \<le> time b) track"
    and bnd: "\<forall>a \<in> set track. time a \<le> time c"
    by (simp_all add: tracks_inv_def)
  have "sorted_wrt (\<lambda>a b. commandEnd fadd a \<le> time b) (track @ [c])"
  proof (rule sorted_wrt_snoc_last [OF srt ne fit])
    fix a assume "a \<in> set track" "commandEnd fadd a \<le> time (last track)"
    moreover from ne bnd have "time (last track) \<le> time c" by simp
    ultimately show "commandEnd fadd a \<le> time c" by linarith
  qed
  with bnd have new: "track @ [c] \<noteq> [] \<and> sorted_wrt (\<lambda>a b. commandEnd fadd a \<le> time b) (track @ [c])
      \<and> (\<forall>a \<in> set (track @ [c]). time a \<le> time c)" by simp
  have "tracks_inv fadd tracks' (time c)"
    unfolding tracks_inv_def
  proof
    fix r assume "r \<in> set tracks'"
    with t' have "r = track @ [c] \<or> r \<in> set tracks" using tr by auto
    then show "r \<noteq> [] \<and> sorted_wrt (\<lambda>a b. commandEnd fadd a \<le> time b) r
        \<and> (\<forall>a \<in> set r. time a \<le> time c)"
      using new assms unfolding tracks_inv_def by blast
  qed
  with Some show ?thesis by (simp add: placeCommand_def)
qed

lemma overlapCount_mset: "mset xs = mset ys \<Longrightarrow> overlapCount fadd xs t = overlapCount fadd ys t"
proof -
  assume "mset xs = mset ys"
  then have "mset (filter (\<lambda>c. covers fadd c t) xs) = mset (filter (\<lambda>c. covers fadd c t) ys)"
    by simp
  then have "length (filter (\<lambda>c. covers fadd c t) xs) = length (filter (\<lambda>c. covers fadd c t) ys)"
    by (rule mset_eq_length)
  then show ?thesis by (simp add: overlapCount_def)
qed

lemma overlapCount_append: "overlapCount fadd (xs @ ys) t = overlapCount fadd xs t + overlapCount fadd ys t"
  by (simp add: overlapCount_def)

lemma row_covers_once:
  "sorted_wrt (\<lambda>a b. commandEnd fadd a \<le> time b) row \<Longrightarrow> overlapCount fadd row t \<le> 1"
proof (induction row)
  case Nil
  then show ?case by (simp add: overlapCount_def)
next
  case (Cons a row)
  show ?case
  proof (cases "covers fadd a t")
    case True
    have "\<not> covers fadd b t" if "b \<in> set row" for b
    proof -
      from Cons.prems that have "commandEnd fadd a \<le> time b" by simp
      with True show ?thesis by (simp add: covers_def)
    qed
    then have "filter (\<lambda>c. covers fadd c t) row = []" by (simp add: filter_empty_conv)
    with True show ?thesis by (simp add: overlapCount_def)
  next
    case False
    with Cons show ?thesis by (simp add: overlapCount_def)
  qed
qed

lemma overlapCount_le_rows:
  "tracks_inv fadd tracks b \<Longrightarrow> overlapCount fadd (concat tracks) t \<le> length tracks"
proof (induction tracks)
  case Nil
  then show ?case by (simp add: overlapCount_def)
next
  case (Cons row tracks)
  from Cons.prems have "sorted_wrt (\<lambda>a b. commandEnd fadd a \<le> time b) row" and "tracks_inv fadd tracks b"
    by (simp_all add: tracks_inv_def)
  with Cons.IH row_covers_once [of fadd row t] show ?case
    by (simp add: overlapCount_append)
qed

lemma rows_le_overlapCount:
  "\<forall>row \<in> set tracks. \<exists>a \<in> set row. covers fadd a t \<Longrightarrow> length tracks \<le> overlapCount fadd (concat tracks) t"
proof (induction tracks)
  case Nil
  then show ?case by simp
next
  case (Cons row tracks)
  from Cons.prems obtain a where "a \<in> set row" "covers fadd a t" by auto
  then have "filter (\<lambda>c. covers fadd c t) row \<noteq> []" by (auto simp: filter_empty_conv)
  then have "1 \<le> overlapCount fadd row t"
    by (simp add: overlapCount_def Suc_le_eq)
  moreover from Cons have "length tracks \<le> overlapCount fadd (concat tracks) t" by simp
  ultimately show ?case by (simp add: overlapCount_append)
qed

lemma full_placeCommand:
  assumes inv: "tracks_inv fadd tracks (time c)" and pos: "time c < commandEnd fadd c"
    and full: "\<exists>t. length tracks \<le> overlapCount fadd (concat tracks) t"
  shows "\<exists>t. length (placeCommand fadd tracks c) \<le> overlapCount fadd (concat (placeCommand fadd tracks c)) t"
proof (cases "placeInTrack fadd c tracks")
  case None
  have "\<exists>a \<in> set row. covers fadd a (time c)" if row: "row \<in> set tracks" for row
  proof -
    from inv row have ne: "row \<noteq> []" and "\<forall>a \<in> set row. time a \<le> time c"
      by (simp_all add: tracks_inv_def)
    then have "time (last row) \<le> time c" by simp
    moreover from placeInTrack_None [OF None row ne] have "time c < commandEnd fadd (last row)" .
    ultimately have "covers fadd (last row) (time c)" by (simp add: covers_def)
    with ne show ?thesis using last_in_set by blast
  qed
  then have "length tracks \<le> overlapCount fadd (concat tracks) (time c)"
    by (simp add: rows_le_overlapCount)
  moreover from pos have "overlapCount fadd [c] (time c) = 1"
    by (simp add: overlapCount_def covers_def commandEnd_def)
  ultimately have "length (tracks @ [[c]]) \<le> overlapCount fadd (concat (tracks @ [[c]])) (time c)"
    by (simp add: overlapCount_append)
  with None show ?thesis by (auto simp: placeCommand_def)
next
  case (Some tracks')
  from placeInTrack_Some [OF Some] have len: "length tracks' = length tracks" by auto
  from full obtain t where t: "length tracks \<le> overlapCount fadd (concat tracks) t" by blast
  have "mset (concat (placeCommand fadd tracks c)) = mset (concat tracks @ [c])"
    by (simp add: mset_concat_placeCommand)
  then have "overlapCount fadd (concat (placeCommand fadd tracks c)) t = overlapCount fadd (concat tracks @ [c]) t"
    by (rule overlapCount_mset)
  with t have "length tracks \<le> overlapCount fadd (concat (placeCommand fadd tracks c)) t"
    by (simp add: overlapCount_append)
  with Some len show ?thesis by (auto simp: placeCommand_def)
qed

lemma foldl_placeCommand_inv:
  assumes "sorted (map time cs)" and "tracks_inv fadd tracks b" and "\<forall>c \<in> set cs. b \<le> time c"
  shows "(\<exists>b'. tracks_inv fadd (foldl (placeCommand fadd) tracks cs) b')
       \<and> mset (concat (foldl (placeCommand fadd) tracks cs)) = mset (concat tracks) + mset cs"
  using assms
proof (induction cs arbitrary: tracks b)
  case Nil
  then show ?case by auto
next
  case (Cons c cs)
  from Cons.prems have "tracks_inv fadd tracks (time c)"
    using tracks_inv_mono by (metis list.set_intros(1))
  then have step: "tracks_inv fadd (placeCommand fadd tracks c) (time c)"
    by (rule tracks_inv_placeCommand)
  from Cons.prems(1) have srt: "sorted (map time cs)" and le: "\<forall>c' \<in> set cs. time c \<le> time c'"
    by simp_all
  from Cons.IH [OF srt step le] show ?case
    by (simp add: mset_concat_placeCommand)
qed

lemma foldl_placeCommand_full:
  assumes "sorted (map time cs)" and "tracks_inv fadd tracks b" and "\<forall>c \<in> set cs. b \<le> time c"
    and "\<forall>c \<in> set cs. time c < commandEnd fadd c"
    and "\<exists>t. length tracks \<le> overlapCount fadd (concat tracks) t"
  shows "\<exists>t. length (foldl (placeCommand fadd) tracks cs) \<le> overlapCount fadd (concat (foldl (placeCommand fadd) tracks cs)) t"
  using assms
proof (induction cs arbitrary: tracks b)
  case Nil
  then show ?case by simp
next
  case (Cons c cs)
  from Cons.prems have inv: "tracks_inv fadd tracks (time c)"
    using tracks_inv_mono by (metis list.set_intros(1))
  then have step: "tracks_inv fadd (placeCommand fadd tracks c) (time c)"
    by (rule tracks_inv_placeCommand)
  from Cons.prems(4) have pos: "time c < commandEnd fadd c" and poss: "\<forall>c \<in> set cs. time c < commandEnd fadd c"
    by simp_all
  from full_placeCommand [OF inv pos Cons.prems(5)]
  have full: "\<exists>t. length (placeCommand fadd tracks c) \<le> overlapCount fadd (concat (placeCommand fadd tracks c)) t" .
  from Cons.prems(1) have srt: "sorted (map time cs)" and le: "\<forall>c' \<in> set cs. time c \<le> time c'"
    by simp_all
  from Cons.IH [OF srt step le poss full] show ?case by simp
qed

lemma overlaps_iff: "overlaps fadd a b \<longleftrightarrow> (\<exists>t. covers fadd a t \<and> covers fadd b t)"
proof
  assume "overlaps fadd a b"
  then have "covers fadd a (max (time a) (time b)) \<and> covers fadd b (max (time a) (time b))"
    by (simp add: overlaps_def covers_def)
  then show "\<exists>t. covers fadd a t \<and> covers fadd b t" ..
next
  assume "\<exists>t. covers fadd a t \<and> covers fadd b t"
  then obtain t where "covers fadd a t" "covers fadd b t" by blast
  then show "overlaps fadd a b"
    by (simp add: overlaps_def covers_def)
qed

lemma fold_max_ge_init: "(a::'a::linorder) \<le> fold max xs a"
proof (induction xs arbitrary: a)
  case Nil
  show ?case by simp
next
  case (Cons x xs)
  have "a \<le> max x a" by simp
  also have "\<dots> \<le> fold max xs (max x a)" by (rule Cons.IH)
  finally show ?case by simp
qed

lemma fold_max_ge_elem: "x \<in> set xs \<Longrightarrow> (x::'a::linorder) \<le> fold max xs a"
proof (induction xs arbitrary: a)
  case Nil
  then show ?case by simp
next
  case (Cons y xs)
  show ?case
  proof (cases "x = y")
    case True
    have "x \<le> max y a" using True by simp
    also have "\<dots> \<le> fold max xs (max y a)" by (rule fold_max_ge_init)
    finally show ?thesis by simp
  next
    case False
    with Cons.prems have "x \<in> set xs" by simp
    then show ?thesis using Cons.IH by simp
  qed
qed

lemma fold_max_in: "fold max xs (a::'a::linorder) = a \<or> fold max xs a \<in> set xs"
proof (induction xs arbitrary: a)
  case Nil
  show ?case by simp
next
  case (Cons x xs)
  from Cons.IH [of "max x a"] show ?case
    by (auto simp: max_def split: if_splits)
qed

lemma length_filter_mono:
  "(\<And>x. x \<in> set xs \<Longrightarrow> P x \<Longrightarrow> Q x) \<Longrightarrow> length (filter P xs) \<le> length (filter Q xs)"
  by (induction xs) auto

lemma maxOverlap_greatest: "overlapCount fadd cs t \<le> maxOverlap fadd cs"
proof (cases "filter (\<lambda>c. covers fadd c t) cs = []")
  case True
  then show ?thesis by (simp add: overlapCount_def)
next
  case False
  let ?S = "set (filter (\<lambda>c. covers fadd c t) cs)"
  have fin: "finite (time ` ?S)" by simp
  from False have "?S \<noteq> {}" unfolding set_empty .
  then have ne: "time ` ?S \<noteq> {}" by blast
  from Max_in [OF fin ne] obtain c' where c': "c' \<in> ?S" and mx: "time c' = Max (time ` ?S)"
    by (metis (no_types, lifting) image_iff)
  have "covers fadd c (time c')" if "c \<in> set cs" "covers fadd c t" for c
  proof -
    from that have "time c \<in> time ` ?S" by simp
    with fin have "time c \<le> time c'" unfolding mx by (rule Max_ge)
    moreover from c' have "time c' \<le> t" by (simp add: covers_def)
    moreover from that have "t < commandEnd fadd c" by (simp add: covers_def)
    ultimately show ?thesis by (simp add: covers_def)
  qed
  then have "overlapCount fadd cs t \<le> overlapCount fadd cs (time c')"
    unfolding overlapCount_def by (rule length_filter_mono)
  also from c' have "overlapCount fadd cs (time c') \<in> set (map (\<lambda>c. overlapCount fadd cs (time c)) cs)"
    by simp
  then have "overlapCount fadd cs (time c') \<le> maxOverlap fadd cs"
    unfolding maxOverlap_def by (rule fold_max_ge_elem)
  finally show ?thesis .
qed

lemma maxOverlap_attained: "\<exists>t. overlapCount fadd cs t = maxOverlap fadd cs"
proof -
  from fold_max_in [of "map (\<lambda>c. overlapCount fadd cs (time c)) cs" 0]
  have "maxOverlap fadd cs = 0 \<or> maxOverlap fadd cs \<in> set (map (\<lambda>c. overlapCount fadd cs (time c)) cs)"
    by (simp add: maxOverlap_def)
  then show ?thesis
  proof
    assume "maxOverlap fadd cs = 0"
    with maxOverlap_greatest [of fadd cs 0] show ?thesis by auto
  next
    assume "maxOverlap fadd cs \<in> set (map (\<lambda>c. overlapCount fadd cs (time c)) cs)"
    then show ?thesis by auto
  qed
qed

lemma chained_no_overlap: "commandEnd fadd a \<le> time b \<Longrightarrow> \<not> overlaps fadd a b"
  by (simp add: overlaps_def)

text \<open>
  C1. For the commands of one lane, \<open>organizeCommandsIntoTracks\<close> partitions them into
  rows: the rows together hold exactly the commands of the lane, no row is empty, and no
  two commands of a row have overlapping half-open intervals, the end of an interval
  being the sum of time and duration as the source computes it. The number of rows is
  never smaller than the greatest number of commands whose intervals hold one instant,
  and it is equal to it when the computed end of every command of the lane is greater
  than its time. This holds for every rounding of the sum.
\<close>

theorem organizeCommandsIntoTracks_rows:
  "mset (concat (organizeCommandsIntoTracks fadd commands lt))
     = mset (filter (\<lambda>cmd. lightType (parameters cmd) = lt) commands)
   \<and> (\<forall>row \<in> set (organizeCommandsIntoTracks fadd commands lt).
         row \<noteq> [] \<and> (\<forall>i j. i < j \<and> j < length row \<longrightarrow> \<not> overlaps fadd (row ! i) (row ! j)))
   \<and> maxOverlap fadd (filter (\<lambda>cmd. lightType (parameters cmd) = lt) commands)
        \<le> length (organizeCommandsIntoTracks fadd commands lt)
   \<and> ((\<forall>c \<in> set commands. lightType (parameters c) = lt \<longrightarrow> time c < commandEnd fadd c)
        \<longrightarrow> length (organizeCommandsIntoTracks fadd commands lt)
              = maxOverlap fadd (filter (\<lambda>cmd. lightType (parameters cmd) = lt) commands))"
proof -
  let ?lane = "filter (\<lambda>cmd. lightType (parameters cmd) = lt) commands"
  let ?cs = "sort_key time ?lane"
  let ?rows = "organizeCommandsIntoTracks fadd commands lt"
  have rows: "?rows = foldl (placeCommand fadd) [] ?cs"
    by (simp add: organizeCommandsIntoTracks_def)
  have srt: "sorted (map time ?cs)" by simp
  define b where "b = (if ?cs = [] then 0 else time (hd ?cs))"
  have inv0: "tracks_inv fadd [] b" by (simp add: tracks_inv_def)
  have lb: "\<forall>c \<in> set ?cs. b \<le> time c"
  proof (cases "?cs")
    case Nil
    then show ?thesis by simp
  next
    case (Cons x xs)
    with srt have "\<forall>c \<in> set xs. time x \<le> time c" by simp
    with Cons show ?thesis by (simp add: b_def)
  qed
  from foldl_placeCommand_inv [OF srt inv0 lb] obtain b' where
    inv: "tracks_inv fadd ?rows b'" and ms: "mset (concat ?rows) = mset ?cs"
    unfolding rows by auto
  from ms have part: "mset (concat ?rows) = mset ?lane" by simp
  have rowsok: "\<forall>row \<in> set ?rows.
      row \<noteq> [] \<and> (\<forall>i j. i < j \<and> j < length row \<longrightarrow> \<not> overlaps fadd (row ! i) (row ! j))"
  proof
    fix row assume "row \<in> set ?rows"
    with inv have ne: "row \<noteq> []" and sw: "sorted_wrt (\<lambda>a b. commandEnd fadd a \<le> time b) row"
      by (simp_all add: tracks_inv_def)
    from sw have "\<forall>i j. i < j \<and> j < length row \<longrightarrow> \<not> overlaps fadd (row ! i) (row ! j)"
      by (simp add: sorted_wrt_iff_nth_less chained_no_overlap)
    with ne show "row \<noteq> [] \<and> (\<forall>i j. i < j \<and> j < length row \<longrightarrow> \<not> overlaps fadd (row ! i) (row ! j))"
      by simp
  qed
  have cnt: "overlapCount fadd ?lane t = overlapCount fadd (concat ?rows) t" for t
    using part by (simp add: overlapCount_mset)
  obtain t0 where t0: "overlapCount fadd ?lane t0 = maxOverlap fadd ?lane"
    using maxOverlap_attained by blast
  have upper: "maxOverlap fadd ?lane \<le> length ?rows"
    using overlapCount_le_rows [OF inv, of t0] cnt [of t0] t0 by simp
  have exact: "length ?rows = maxOverlap fadd ?lane"
    if pos: "\<forall>c \<in> set commands. lightType (parameters c) = lt \<longrightarrow> time c < commandEnd fadd c"
  proof -
    from pos have pos': "\<forall>c \<in> set ?cs. time c < commandEnd fadd c" by simp
    have full0: "\<exists>t. length ([] :: StacyCommand list list) \<le> overlapCount fadd (concat []) t" by simp
    from foldl_placeCommand_full [OF srt inv0 lb pos' full0]
    obtain t1 where "length ?rows \<le> overlapCount fadd (concat ?rows) t1"
      unfolding rows by blast
    with cnt [of t1] have "length ?rows \<le> overlapCount fadd ?lane t1" by simp
    also have "\<dots> \<le> maxOverlap fadd ?lane" by (rule maxOverlap_greatest)
    finally show ?thesis using upper by simp
  qed
  from part rowsok upper exact show ?thesis by blast
qed

theorem organizeCommandsIntoTracks_rows_witness:
  "organizeCommandsIntoTracks (+)
     [\<lparr>id = ''a'', time = 1, type = Color, parameters = \<lparr>lightType = HeadsA, fadeSpeed = None\<rparr>\<rparr>,
      \<lparr>id = ''b'', time = 2, type = Cue, parameters = \<lparr>lightType = HeadsA, fadeSpeed = None\<rparr>\<rparr>,
      \<lparr>id = ''x'', time = 3 / 2, type = Cue, parameters = \<lparr>lightType = BarsA, fadeSpeed = None\<rparr>\<rparr>,
      \<lparr>id = ''c'', time = 3, type = Color, parameters = \<lparr>lightType = HeadsA, fadeSpeed = None\<rparr>\<rparr>]
     HeadsA
   = [[\<lparr>id = ''a'', time = 1, type = Color, parameters = \<lparr>lightType = HeadsA, fadeSpeed = None\<rparr>\<rparr>,
       \<lparr>id = ''c'', time = 3, type = Color, parameters = \<lparr>lightType = HeadsA, fadeSpeed = None\<rparr>\<rparr>],
      [\<lparr>id = ''b'', time = 2, type = Cue, parameters = \<lparr>lightType = HeadsA, fadeSpeed = None\<rparr>\<rparr>]]
   \<and> maxOverlap (+)
     (filter (\<lambda>cmd. lightType (parameters cmd) = HeadsA)
     [\<lparr>id = ''a'', time = 1, type = Color, parameters = \<lparr>lightType = HeadsA, fadeSpeed = None\<rparr>\<rparr>,
      \<lparr>id = ''b'', time = 2, type = Cue, parameters = \<lparr>lightType = HeadsA, fadeSpeed = None\<rparr>\<rparr>,
      \<lparr>id = ''x'', time = 3 / 2, type = Cue, parameters = \<lparr>lightType = BarsA, fadeSpeed = None\<rparr>\<rparr>,
      \<lparr>id = ''c'', time = 3, type = Color, parameters = \<lparr>lightType = HeadsA, fadeSpeed = None\<rparr>\<rparr>])
     = 2"
proof -
  let ?cmds = "[\<lparr>id = ''a'', time = 1, type = Color, parameters = \<lparr>lightType = HeadsA, fadeSpeed = None\<rparr>\<rparr>,
      \<lparr>id = ''b'', time = 2, type = Cue, parameters = \<lparr>lightType = HeadsA, fadeSpeed = None\<rparr>\<rparr>,
      \<lparr>id = ''x'', time = 3 / 2, type = Cue, parameters = \<lparr>lightType = BarsA, fadeSpeed = None\<rparr>\<rparr>,
      \<lparr>id = ''c'', time = 3, type = Color, parameters = \<lparr>lightType = HeadsA, fadeSpeed = None\<rparr>\<rparr>]"
  have pos: "\<forall>c \<in> set ?cmds. lightType (parameters c) = HeadsA \<longrightarrow> time c < commandEnd (+) c"
    by (simp add: commandEnd_def getCommandDuration_def)
  have rows: "organizeCommandsIntoTracks (+) ?cmds HeadsA
    = [[\<lparr>id = ''a'', time = 1, type = Color, parameters = \<lparr>lightType = HeadsA, fadeSpeed = None\<rparr>\<rparr>,
       \<lparr>id = ''c'', time = 3, type = Color, parameters = \<lparr>lightType = HeadsA, fadeSpeed = None\<rparr>\<rparr>],
      [\<lparr>id = ''b'', time = 2, type = Cue, parameters = \<lparr>lightType = HeadsA, fadeSpeed = None\<rparr>\<rparr>]]"
    by (simp add: organizeCommandsIntoTracks_def placeCommand_def getCommandDuration_def)
  from organizeCommandsIntoTracks_rows [of "(+)" ?cmds HeadsA] pos
  have "length (organizeCommandsIntoTracks (+) ?cmds HeadsA)
      = maxOverlap (+) (filter (\<lambda>cmd. lightType (parameters cmd) = HeadsA) ?cmds)"
    by blast
  with rows show ?thesis by simp
qed

text \<open>
  A FadeOn command with fadeSpeed 0 has an empty interval. Placed at time 1, inside a
  Color command that lasts from 0 to 2, it still opens a second row, although no instant
  lies in more than one interval. The sums \<open>0 + 2\<close> and \<open>1 + 0\<close> of this input are exact
  in double-precision arithmetic, so that the addition is the one of the real numbers.
\<close>

theorem zero_duration_opens_row:
  "length (organizeCommandsIntoTracks (+)
     [\<lparr>id = ''a'', time = 0, type = Color, parameters = \<lparr>lightType = HeadsA, fadeSpeed = None\<rparr>\<rparr>,
      \<lparr>id = ''b'', time = 1, type = FadeOn, parameters = \<lparr>lightType = HeadsA, fadeSpeed = Some 0\<rparr>\<rparr>]
     HeadsA) = 2
   \<and> maxOverlap (+)
     (filter (\<lambda>cmd. lightType (parameters cmd) = HeadsA)
     [\<lparr>id = ''a'', time = 0, type = Color, parameters = \<lparr>lightType = HeadsA, fadeSpeed = None\<rparr>\<rparr>,
      \<lparr>id = ''b'', time = 1, type = FadeOn, parameters = \<lparr>lightType = HeadsA, fadeSpeed = Some 0\<rparr>\<rparr>])
     = 1"
  by (simp add: organizeCommandsIntoTracks_def placeCommand_def getCommandDuration_def
      maxOverlap_def overlapCount_def covers_def commandEnd_def)

text \<open>
  Two cases in which the rounding of the sum decides the layout. When the sum of 0.2
  and 0.1 is rounded above 0.3, as it is in double precision, a command at 0.3 does not
  fit behind a command at 0.2: there are two rows, and the two computed intervals hold
  the instant 0.3. When a duration is so small that the sum is the time itself, two such
  commands at the same time share one row, and no instant lies in either interval.
\<close>

lemma rounded_up_sum_opens_row:
  assumes "3 / 10 < fadd (1 / 5) (1 / 10)" and "3 / 10 < fadd (3 / 10) (1 / 10)"
  shows "length (organizeCommandsIntoTracks fadd
           [\<lparr>id = ''a'', time = 1 / 5, type = On, parameters = \<lparr>lightType = HeadsA, fadeSpeed = None\<rparr>\<rparr>,
            \<lparr>id = ''b'', time = 3 / 10, type = On, parameters = \<lparr>lightType = HeadsA, fadeSpeed = None\<rparr>\<rparr>] HeadsA) = 2
       \<and> maxOverlap fadd
           [\<lparr>id = ''a'', time = 1 / 5, type = On, parameters = \<lparr>lightType = HeadsA, fadeSpeed = None\<rparr>\<rparr>,
            \<lparr>id = ''b'', time = 3 / 10, type = On, parameters = \<lparr>lightType = HeadsA, fadeSpeed = None\<rparr>\<rparr>] = 2"
  using assms
  by (simp add: organizeCommandsIntoTracks_def placeCommand_def getCommandDuration_def
      maxOverlap_def overlapCount_def covers_def commandEnd_def)

lemma absorbed_duration_shares_row:
  assumes "fadd 1 d = 1"
  shows "length (organizeCommandsIntoTracks fadd
           [\<lparr>id = ''a'', time = 1, type = FadeOn, parameters = \<lparr>lightType = HeadsA, fadeSpeed = Some d\<rparr>\<rparr>,
            \<lparr>id = ''b'', time = 1, type = FadeOn, parameters = \<lparr>lightType = HeadsA, fadeSpeed = Some d\<rparr>\<rparr>] HeadsA) = 1
       \<and> maxOverlap fadd
           [\<lparr>id = ''a'', time = 1, type = FadeOn, parameters = \<lparr>lightType = HeadsA, fadeSpeed = Some d\<rparr>\<rparr>,
            \<lparr>id = ''b'', time = 1, type = FadeOn, parameters = \<lparr>lightType = HeadsA, fadeSpeed = Some d\<rparr>\<rparr>] = 0"
  using assms
  by (simp add: organizeCommandsIntoTracks_def placeCommand_def getCommandDuration_def
      maxOverlap_def overlapCount_def covers_def commandEnd_def)

subsection \<open>Waveform: number of blocks and the fallback\<close>

lemma waveformPoints_foldl:
  "length (waveformPoints (foldl (analyseBlock audioBuffer) a is)) = length (waveformPoints a) + length is"
proof (induction "is" arbitrary: a)
  case Nil
  show ?case by simp
next
  case (Cons i "is")
  have "length (waveformPoints (analyseBlock audioBuffer a i)) = Suc (length (waveformPoints a))"
    by (simp add: analyseBlock_def Let_def split: prod.splits)
  with Cons.IH [of "analyseBlock audioBuffer a i"] show ?case by simp
qed

lemma length_waveformPoints: "length (waveformPoints (analyseBlocks audioBuffer)) = samples audioBuffer"
  by (simp add: analyseBlocks_def waveformPoints_foldl)

lemma length_normalizedWaveform: "length (normalizedWaveform points) = length points"
  by (simp add: normalizedWaveform_def)

text \<open>
  C2. For every sample buffer the number of blocks is the minimum of 1500 and the sample
  count divided by 1024, rounded down, and the waveform has that many values. There is
  no guard for short buffers: with fewer than 1024 samples the number of blocks is 0 and
  the waveform is empty; with 1024 samples or more there is at least one block and the
  waveform is not empty.
\<close>

theorem samples_without_guard:
  "samples audioBuffer = min 1500 (length (channelData audioBuffer) div 1024)
   \<and> length (waveformData (generateAdvancedWaveform True (Inr audioBuffer) s)) = samples audioBuffer
   \<and> (length (channelData audioBuffer) < 1024
        \<longrightarrow> samples audioBuffer = 0
            \<and> waveformData (generateAdvancedWaveform True (Inr audioBuffer) s) = [])
   \<and> (1024 \<le> length (channelData audioBuffer)
        \<longrightarrow> 1 \<le> samples audioBuffer
            \<and> waveformData (generateAdvancedWaveform True (Inr audioBuffer) s) \<noteq> [])"
proof -
  have def: "samples audioBuffer = min 1500 (length (channelData audioBuffer) div 1024)"
    by (simp add: samples_def)
  have len: "length (waveformData (generateAdvancedWaveform True (Inr audioBuffer) s)) = samples audioBuffer"
    by (simp add: generateAdvancedWaveform_def Let_def length_normalizedWaveform length_waveformPoints)
  have short: "samples audioBuffer = 0
      \<and> waveformData (generateAdvancedWaveform True (Inr audioBuffer) s) = []"
    if "length (channelData audioBuffer) < 1024"
  proof -
    from that have "samples audioBuffer = 0" by (simp add: samples_def)
    with len show ?thesis by simp
  qed
  have long: "1 \<le> samples audioBuffer
      \<and> waveformData (generateAdvancedWaveform True (Inr audioBuffer) s) \<noteq> []"
    if "1024 \<le> length (channelData audioBuffer)"
  proof -
    from that have "1 \<le> length (channelData audioBuffer) div 1024"
      by (simp add: div_greater_zero_iff Suc_le_eq)
    then have "1 \<le> samples audioBuffer" by (simp add: samples_def)
    with len show ?thesis by auto
  qed
  from def len short long show ?thesis by blast
qed

theorem samples_without_guard_witness:
  "samples \<lparr>channelData = replicate 5000 (1 / 2), bufferDuration = 1\<rparr> = 4
   \<and> length (waveformData (generateAdvancedWaveform True
        (Inr \<lparr>channelData = replicate 5000 (1 / 2), bufferDuration = 1\<rparr>)
        \<lparr>waveformData = [], beatData = [], isLoadingWaveform = True\<rparr>)) = 4
   \<and> samples \<lparr>channelData = replicate 1000 (1 / 2), bufferDuration = 1\<rparr> = 0"
  using samples_without_guard
    [of "\<lparr>channelData = replicate 5000 (1 / 2), bufferDuration = 1\<rparr>"
        "\<lparr>waveformData = [], beatData = [], isLoadingWaveform = True\<rparr>"]
    samples_without_guard
    [of "\<lparr>channelData = replicate 1000 (1 / 2), bufferDuration = 1\<rparr>"
        "\<lparr>waveformData = [], beatData = [], isLoadingWaveform = True\<rparr>"]
  by simp

text \<open>
  A buffer of three samples has no block, and its waveform is empty.
\<close>

theorem short_buffer_gives_no_block:
  "samples \<lparr>channelData = [1 / 2, 1 / 4, - 1 / 2], bufferDuration = 1\<rparr> = 0
   \<and> waveformData (generateAdvancedWaveform True
        (Inr \<lparr>channelData = [1 / 2, 1 / 4, - 1 / 2], bufferDuration = 1\<rparr>)
        \<lparr>waveformData = [], beatData = [], isLoadingWaveform = True\<rparr>) = []"
  by (simp add: samples_def generateAdvancedWaveform_def analyseBlocks_def normalizedWaveform_def)

text \<open>
  C6. When a step of the analysis fails, \<open>generateAdvancedWaveform\<close> does not pass the
  failure on: it ends in a state whose waveform is the fallback of 100 values, each 0.1,
  and whose beat list is empty.
\<close>

theorem decode_failure_fallback:
  "generateAdvancedWaveform True (Inl error) s
     = \<lparr>waveformData = replicate 100 (1 / 10), beatData = [], isLoadingWaveform = False\<rparr>
   \<and> length (waveformData (generateAdvancedWaveform True (Inl error) s)) = 100
   \<and> set (waveformData (generateAdvancedWaveform True (Inl error) s)) = {1 / 10}
   \<and> beatData (generateAdvancedWaveform True (Inl error) s) = []"
  by (simp add: generateAdvancedWaveform_def)

theorem decode_failure_fallback_witness:
  "waveformData (generateAdvancedWaveform True (Inl DecodeFailed)
        \<lparr>waveformData = [1, 1 / 2], beatData = [\<lparr>BeatData.time = 0, strength = PosInfinity\<rparr>],
         isLoadingWaveform = True\<rparr>) ! 99 = 1 / 10
   \<and> beatData (generateAdvancedWaveform True (Inl DecodeFailed)
        \<lparr>waveformData = [1, 1 / 2], beatData = [\<lparr>BeatData.time = 0, strength = PosInfinity\<rparr>],
         isLoadingWaveform = True\<rparr>) = []"
  using decode_failure_fallback
    [of DecodeFailed "\<lparr>waveformData = [1, 1 / 2],
         beatData = [\<lparr>BeatData.time = 0, strength = PosInfinity\<rparr>], isLoadingWaveform = True\<rparr>"]
  by simp

subsection \<open>Following the playhead\<close>
















subsection \<open>Waveform: blocks and normalization\<close>

lemma scan_fst_ge:
  "p \<le> fst (fold (\<lambda>j (peak, rms). (max peak \<bar>sampleAt rawData j\<bar>, rms + sampleAt rawData j * sampleAt rawData j)) js (p, r))"
proof (induction js arbitrary: p r)
  case Nil
  show ?case by simp
next
  case (Cons j js)
  have "p \<le> max p \<bar>sampleAt rawData j\<bar>" by simp
  also note Cons.IH [of "max p \<bar>sampleAt rawData j\<bar>" "r + sampleAt rawData j * sampleAt rawData j"]
  finally show ?case by simp
qed

lemma scan_fst_elem:
  "k \<in> set js \<Longrightarrow>
   \<bar>sampleAt rawData k\<bar> \<le> fst (fold (\<lambda>j (peak, rms). (max peak \<bar>sampleAt rawData j\<bar>, rms + sampleAt rawData j * sampleAt rawData j)) js (p, r))"
proof (induction js arbitrary: p r)
  case Nil
  then show ?case by simp
next
  case (Cons j js)
  show ?case
  proof (cases "k = j")
    case True
    have "\<bar>sampleAt rawData k\<bar> \<le> max p \<bar>sampleAt rawData j\<bar>" using True by simp
    also note scan_fst_ge [of "max p \<bar>sampleAt rawData j\<bar>" rawData js "r + sampleAt rawData j * sampleAt rawData j"]
    finally show ?thesis by simp
  next
    case False
    with Cons.prems have "k \<in> set js" by simp
    from Cons.IH [OF this] show ?thesis by simp
  qed
qed

lemma scan_snd_ge:
  "r \<le> snd (fold (\<lambda>j (peak, rms). (max peak \<bar>sampleAt rawData j\<bar>, rms + sampleAt rawData j * sampleAt rawData j)) js (p, r))"
proof (induction js arbitrary: p r)
  case Nil
  show ?case by simp
next
  case (Cons j js)
  have "r \<le> r + sampleAt rawData j * sampleAt rawData j" by simp
  also note Cons.IH [of "r + sampleAt rawData j * sampleAt rawData j" "max p \<bar>sampleAt rawData j\<bar>"]
  finally show ?case by simp
qed

lemma scan_const:
  "\<forall>j \<in> set js. sampleAt rawData j = c \<Longrightarrow>
   fold (\<lambda>j (peak, rms). (max peak \<bar>sampleAt rawData j\<bar>, rms + sampleAt rawData j * sampleAt rawData j)) js (p, r)
     = (if js = [] then p else max p \<bar>c\<bar>, r + real (length js) * (c * c))"
proof (induction js arbitrary: p r)
  case Nil
  show ?case by simp
next
  case (Cons j js)
  then have c: "sampleAt rawData j = c" and rest: "\<forall>j \<in> set js. sampleAt rawData j = c"
    by simp_all
  from Cons.IH [OF rest, of "max p \<bar>c\<bar>" "r + c * c"] c show ?case
    by (simp add: algebra_simps)
qed

lemma blockScan_nonneg: "0 \<le> fst (blockScan rawData blockStart blockEnd) \<and> 0 \<le> snd (blockScan rawData blockStart blockEnd)"
  unfolding blockScan_def using scan_fst_ge [of 0] scan_snd_ge [of 0] by blast

lemma blockScan_peak:
  "blockStart \<le> k \<Longrightarrow> k < blockEnd \<Longrightarrow> \<bar>sampleAt rawData k\<bar> \<le> fst (blockScan rawData blockStart blockEnd)"
  unfolding blockScan_def by (rule scan_fst_elem) simp

lemma blockScan_const:
  "\<forall>j. blockStart \<le> j \<and> j < blockEnd \<longrightarrow> sampleAt rawData j = c \<Longrightarrow>
   blockScan rawData blockStart blockEnd
     = (if blockStart < blockEnd then \<bar>c\<bar> else 0, real (blockEnd - blockStart) * (c * c))"
proof -
  assume "\<forall>j. blockStart \<le> j \<and> j < blockEnd \<longrightarrow> sampleAt rawData j = c"
  then have "\<forall>j \<in> set [blockStart..<blockEnd]. sampleAt rawData j = c" by simp
  from scan_const [OF this, of 0 0] show ?thesis
    by (simp add: blockScan_def)
qed

lemma samples_le: "samples audioBuffer \<le> 1500"
  by (simp add: samples_def)

lemma blockSize_ge:
  assumes "0 < samples audioBuffer"
  shows "1024 \<le> blockSize audioBuffer"
proof -
  let ?n = "length (channelData audioBuffer)"
  have "samples audioBuffer \<le> ?n div 1024" by (simp add: samples_def)
  then have "samples audioBuffer * 1024 \<le> ?n div 1024 * 1024" by simp
  also have "\<dots> \<le> ?n" by simp
  finally have "1024 * samples audioBuffer \<le> ?n" by (simp add: mult.commute)
  with assms have "1024 \<le> ?n div samples audioBuffer"
    by (simp add: less_eq_div_iff_mult_less_eq mult.commute)
  then show ?thesis by (simp add: blockSize_def)
qed

lemma blocks_fit: "blockSize audioBuffer * samples audioBuffer \<le> length (channelData audioBuffer)"
  by (simp add: blockSize_def)

lemma block_end:
  assumes "i < samples audioBuffer"
  shows "min (blockSize audioBuffer * i + blockSize audioBuffer) (length (channelData audioBuffer))
           = blockSize audioBuffer * i + blockSize audioBuffer"
proof -
  from assms have "Suc i \<le> samples audioBuffer" by simp
  then have "blockSize audioBuffer * Suc i \<le> blockSize audioBuffer * samples audioBuffer"
    by (rule mult_le_mono2)
  with blocks_fit [of audioBuffer] show ?thesis by simp
qed

lemma blockStats_eq:
  assumes "i < samples audioBuffer"
  shows "blockStats audioBuffer i =
           (fst (blockScan (channelData audioBuffer) (blockSize audioBuffer * i)
                   (blockSize audioBuffer * i + blockSize audioBuffer)),
            sqrt (snd (blockScan (channelData audioBuffer) (blockSize audioBuffer * i)
                   (blockSize audioBuffer * i + blockSize audioBuffer))
                  / real (blockSize audioBuffer)))"
  by (simp add: blockStats_def Let_def block_end [OF assms] split: prod.splits)

lemma blockStats_nonneg: "0 \<le> fst (blockStats audioBuffer i) \<and> 0 \<le> snd (blockStats audioBuffer i)"
proof -
  let ?scan = "blockScan (channelData audioBuffer) (blockSize audioBuffer * i)
      (min (blockSize audioBuffer * i + blockSize audioBuffer) (length (channelData audioBuffer)))"
  have st: "blockStats audioBuffer i
      = (fst ?scan, sqrt (snd ?scan / real (min (blockSize audioBuffer * i + blockSize audioBuffer)
            (length (channelData audioBuffer)) - blockSize audioBuffer * i)))"
    by (simp add: blockStats_def Let_def split: prod.splits)
  from blockScan_nonneg have "0 \<le> fst ?scan" and "0 \<le> snd ?scan" by blast+
  then show ?thesis unfolding st by simp
qed

lemma blockStats_const:
  assumes i: "i < samples audioBuffer"
    and c: "\<forall>j. blockSize audioBuffer * i \<le> j \<and> j < blockSize audioBuffer * i + blockSize audioBuffer
              \<longrightarrow> sampleAt (channelData audioBuffer) j = c"
  shows "blockStats audioBuffer i = (\<bar>c\<bar>, \<bar>c\<bar>)"
proof -
  from i have "0 < samples audioBuffer" by simp
  then have pos: "0 < blockSize audioBuffer" using blockSize_ge [of audioBuffer] by simp
  from blockScan_const [OF c] pos
  have scan: "blockScan (channelData audioBuffer) (blockSize audioBuffer * i)
        (blockSize audioBuffer * i + blockSize audioBuffer)
      = (\<bar>c\<bar>, real (blockSize audioBuffer) * (c * c))" by simp
  from pos have "real (blockSize audioBuffer) * (c * c) / real (blockSize audioBuffer) = c * c"
    by simp
  then show ?thesis
    by (simp add: blockStats_eq [OF i] scan)
qed

lemma blockStats_peak_pos:
  assumes i: "i < samples audioBuffer"
    and j: "blockSize audioBuffer * i \<le> j" "j < blockSize audioBuffer * i + blockSize audioBuffer"
    and nz: "channelData audioBuffer ! j \<noteq> 0"
  shows "0 < fst (blockStats audioBuffer i)"
proof -
  from i have "Suc i \<le> samples audioBuffer" by simp
  then have "blockSize audioBuffer * Suc i \<le> blockSize audioBuffer * samples audioBuffer"
    by (rule mult_le_mono2)
  with blocks_fit [of audioBuffer] j have "j < length (channelData audioBuffer)" by simp
  with nz have "0 < \<bar>sampleAt (channelData audioBuffer) j\<bar>" by (simp add: sampleAt_def)
  also from blockScan_peak [OF j] have "\<dots> \<le> fst (blockScan (channelData audioBuffer)
      (blockSize audioBuffer * i) (blockSize audioBuffer * i + blockSize audioBuffer))" .
  finally show ?thesis by (simp add: blockStats_eq [OF i])
qed

lemma waveformPoints_foldl_map:
  "waveformPoints (foldl (analyseBlock audioBuffer) a is)
     = waveformPoints a @ map (\<lambda>i. max (fst (blockStats audioBuffer i)) (snd (blockStats audioBuffer i) * 2)) is"
proof (induction "is" arbitrary: a)
  case Nil
  show ?case by simp
next
  case (Cons i "is")
  have "waveformPoints (analyseBlock audioBuffer a i)
      = waveformPoints a @ [max (fst (blockStats audioBuffer i)) (snd (blockStats audioBuffer i) * 2)]"
    by (simp add: analyseBlock_def Let_def split: prod.splits)
  with Cons.IH [of "analyseBlock audioBuffer a i"] show ?case by simp
qed

lemma waveformPoints_analyseBlocks:
  "waveformPoints (analyseBlocks audioBuffer)
     = map (\<lambda>i. max (fst (blockStats audioBuffer i)) (snd (blockStats audioBuffer i) * 2))
         [0..<samples audioBuffer]"
  by (simp add: analyseBlocks_def waveformPoints_foldl_map)

lemma maxVal_greatest:
  assumes "points \<noteq> []"
  shows "\<exists>m. maxVal points = Some m \<and> m \<in> set points \<and> (\<forall>x \<in> set points. x \<le> m)"
proof -
  from assms obtain x rest where points: "points = x # rest" by (cases points) auto
  let ?m = "fold max rest x"
  have "?m \<in> set points" using fold_max_in [of rest x] points by auto
  moreover have "\<forall>y \<in> set points. y \<le> ?m"
    using fold_max_ge_init [of x rest] fold_max_ge_elem [of _ rest x] points by auto
  moreover have "maxVal points = Some ?m" by (simp add: maxVal_def points)
  ultimately show ?thesis by blast
qed

lemma normalized_range:
  assumes "\<forall>x \<in> set points. 0 \<le> x" and "v \<in> set (normalizedWaveform points)"
  shows "0 \<le> v \<and> v \<le> 1"
proof -
  from assms(2) have ne: "points \<noteq> []" by (auto simp: normalizedWaveform_def)
  from maxVal_greatest [OF ne] obtain m where m: "maxVal points = Some m"
    and le: "\<forall>x \<in> set points. x \<le> m" by blast
  from assms(2) obtain x where x: "x \<in> set points"
    and "v = (case maxVal points of None \<Rightarrow> 0 | Some m \<Rightarrow> if m > 0 then x / m else 0)"
    unfolding normalizedWaveform_def set_map by blast
  with m have v: "v = (if m > 0 then x / m else 0)" by simp
  show ?thesis
  proof (cases "m > 0")
    case True
    with x le assms(1) v show ?thesis by simp
  next
    case False
    with v show ?thesis by simp
  qed
qed

lemma normalized_has_one:
  assumes "\<forall>x \<in> set points. 0 \<le> x" and "\<exists>x \<in> set points. 0 < x"
  shows "1 \<in> set (normalizedWaveform points)"
proof -
  from assms(2) have ne: "points \<noteq> []" by auto
  from maxVal_greatest [OF ne] obtain m where m: "maxVal points = Some m"
    and mem: "m \<in> set points" and le: "\<forall>x \<in> set points. x \<le> m" by blast
  from assms(2) le have pos: "0 < m" by force
  have "(\<lambda>val. case maxVal points of None \<Rightarrow> 0 | Some m \<Rightarrow> if m > 0 then val / m else 0) m = 1"
    using m pos by simp
  with mem show ?thesis
    unfolding normalizedWaveform_def set_map by (metis (no_types, lifting) image_eqI)
qed

lemma normalized_all_zero:
  assumes "\<forall>x \<in> set points. x = 0" and "v \<in> set (normalizedWaveform points)"
  shows "v = 0"
  using assms by (auto simp: normalizedWaveform_def split: option.splits)

lemma points_nonneg: "\<forall>x \<in> set (waveformPoints (analyseBlocks audioBuffer)). 0 \<le> x"
  using blockStats_nonneg [of audioBuffer]
  by (auto simp: waveformPoints_analyseBlocks max_def)

lemma points_positive:
  assumes j: "j < samples audioBuffer * blockSize audioBuffer"
    and nz: "channelData audioBuffer ! j \<noteq> 0"
  shows "\<exists>x \<in> set (waveformPoints (analyseBlocks audioBuffer)). 0 < x"
proof -
  let ?bs = "blockSize audioBuffer"
  let ?i = "j div ?bs"
  from j have pos: "0 < ?bs" by (cases "?bs = 0") simp_all
  from j have i: "?i < samples audioBuffer" by (rule less_mult_imp_div_less)
  have lo: "?bs * ?i \<le> j" by simp
  from pos have hi: "j < ?bs * ?i + ?bs"
    using dividend_less_times_div [of ?bs j] by (simp add: add.commute)
  from blockStats_peak_pos [OF i lo hi nz]
  have "0 < max (fst (blockStats audioBuffer ?i)) (snd (blockStats audioBuffer ?i) * 2)"
    by (simp add: max_def)
  moreover from i have "?i \<in> set [0..<samples audioBuffer]" by simp
  ultimately show ?thesis
    unfolding waveformPoints_analyseBlocks set_map by blast
qed

lemma points_zero:
  assumes z: "\<forall>j < samples audioBuffer * blockSize audioBuffer. channelData audioBuffer ! j = 0"
  shows "\<forall>x \<in> set (waveformPoints (analyseBlocks audioBuffer)). x = 0"
proof -
  let ?bs = "blockSize audioBuffer"
  have "blockStats audioBuffer i = (0, 0)" if i: "i < samples audioBuffer" for i
  proof -
    have "sampleAt (channelData audioBuffer) j = 0" if "?bs * i \<le> j \<and> j < ?bs * i + ?bs" for j
    proof -
      from i have "Suc i \<le> samples audioBuffer" by simp
      then have "?bs * Suc i \<le> ?bs * samples audioBuffer" by (rule mult_le_mono2)
      with that have "j < samples audioBuffer * ?bs" by (simp add: mult.commute)
      with z show ?thesis by (simp add: sampleAt_def)
    qed
    then have "\<forall>j. ?bs * i \<le> j \<and> j < ?bs * i + ?bs \<longrightarrow> sampleAt (channelData audioBuffer) j = 0"
      by blast
    from blockStats_const [OF i this] show ?thesis by simp
  qed
  then show ?thesis
    by (auto simp: waveformPoints_analyseBlocks)
qed

text \<open>
  C3. For every sample buffer the normalized waveform has at most 1500 values, each
  between 0 and 1. The blocks hold the first \<open>samples * blockSize\<close> samples of the buffer,
  and the samples after them are not read: when one of the samples read is not zero, the
  value 1 occurs in the waveform (the maximum is divided by itself), and when all of them
  are zero, every value is 0 (a maximum of 0 is not divided by).
\<close>

theorem waveform_normalized:
  "length (waveformData (generateAdvancedWaveform True (Inr audioBuffer) s)) \<le> 1500
   \<and> (\<forall>v \<in> set (waveformData (generateAdvancedWaveform True (Inr audioBuffer) s)). 0 \<le> v \<and> v \<le> 1)
   \<and> ((\<exists>j < samples audioBuffer * blockSize audioBuffer. channelData audioBuffer ! j \<noteq> 0)
        \<longrightarrow> 1 \<in> set (waveformData (generateAdvancedWaveform True (Inr audioBuffer) s)))
   \<and> ((\<forall>j < samples audioBuffer * blockSize audioBuffer. channelData audioBuffer ! j = 0)
        \<longrightarrow> (\<forall>v \<in> set (waveformData (generateAdvancedWaveform True (Inr audioBuffer) s)). v = 0))
   \<and> samples audioBuffer * blockSize audioBuffer \<le> length (channelData audioBuffer)"
proof -
  let ?points = "waveformPoints (analyseBlocks audioBuffer)"
  have w: "waveformData (generateAdvancedWaveform True (Inr audioBuffer) s) = normalizedWaveform ?points"
    by (simp add: generateAdvancedWaveform_def Let_def)
  have len: "length (normalizedWaveform ?points) \<le> 1500"
    by (simp add: length_normalizedWaveform length_waveformPoints samples_le)
  have rng: "\<forall>v \<in> set (normalizedWaveform ?points). 0 \<le> v \<and> v \<le> 1"
    using normalized_range [OF points_nonneg] by blast
  have one: "1 \<in> set (normalizedWaveform ?points)"
    if "\<exists>j < samples audioBuffer * blockSize audioBuffer. channelData audioBuffer ! j \<noteq> 0"
    using that points_positive normalized_has_one [OF points_nonneg] by blast
  have zero: "\<forall>v \<in> set (normalizedWaveform ?points). v = 0"
    if "\<forall>j < samples audioBuffer * blockSize audioBuffer. channelData audioBuffer ! j = 0"
    using normalized_all_zero [OF points_zero [OF that]] by blast
  have fit: "samples audioBuffer * blockSize audioBuffer \<le> length (channelData audioBuffer)"
    using blocks_fit [of audioBuffer] by (simp add: mult.commute)
  from len rng one zero fit show ?thesis unfolding w by blast
qed

theorem waveform_normalized_witness:
  "waveformData (generateAdvancedWaveform True
      (Inr \<lparr>channelData = replicate 1024 (1 / 2) @ replicate 1024 1, bufferDuration = 2\<rparr>)
      \<lparr>waveformData = [], beatData = [], isLoadingWaveform = True\<rparr>) = [1 / 2, 1]"
proof -
  let ?ab = "\<lparr>channelData = replicate 1024 (1 / 2) @ replicate 1024 1, bufferDuration = 2\<rparr>"
  let ?s = "\<lparr>waveformData = [], beatData = [], isLoadingWaveform = True\<rparr>"
  have n: "samples ?ab = 2" and bs: "blockSize ?ab = 1024"
    by (simp_all add: samples_def blockSize_def)
  have b0: "blockStats ?ab 0 = (\<bar>1 / 2\<bar>, \<bar>1 / 2\<bar>)"
    by (rule blockStats_const) (simp_all add: n bs sampleAt_def nth_append)
  have b1: "blockStats ?ab 1 = (\<bar>1\<bar>, \<bar>1\<bar>)"
    by (rule blockStats_const) (auto simp: n bs sampleAt_def nth_append)
  have upt: "[0..<2] = [0, Suc 0]" by (simp add: upt_rec)
  have points: "waveformPoints (analyseBlocks ?ab) = [1, 2]"
    using b0 b1 by (simp add: waveformPoints_analyseBlocks n upt)
  have "(1024::nat) < samples ?ab * blockSize ?ab \<and> channelData ?ab ! 1024 \<noteq> 0"
    by (simp add: n bs nth_append)
  with waveform_normalized [of ?ab ?s]
  have "1 \<in> set (waveformData (generateAdvancedWaveform True (Inr ?ab) ?s))" by blast
  moreover have "waveformData (generateAdvancedWaveform True (Inr ?ab) ?s) = [1 / 2, 1]"
    by (simp add: generateAdvancedWaveform_def Let_def points normalizedWaveform_def maxVal_def)
  ultimately show ?thesis by simp
qed

text \<open>
  A buffer of 2049 samples of which only the last is not zero: the two blocks hold the
  first 2048 samples, and the waveform is two zeros.
\<close>

theorem unread_tail_gives_zero_waveform:
  "waveformData (generateAdvancedWaveform True
      (Inr \<lparr>channelData = replicate 2048 0 @ [1], bufferDuration = 2\<rparr>)
      \<lparr>waveformData = [], beatData = [], isLoadingWaveform = True\<rparr>) = [0, 0]
   \<and> last (channelData \<lparr>channelData = replicate 2048 0 @ [1], bufferDuration = 2\<rparr>) = 1"
proof -
  let ?ab = "\<lparr>channelData = replicate 2048 0 @ [1], bufferDuration = 2\<rparr>"
  have n: "samples ?ab = 2" and bs: "blockSize ?ab = 1024"
    by (simp_all add: samples_def blockSize_def)
  have b0: "blockStats ?ab 0 = (\<bar>0\<bar>, \<bar>0\<bar>)"
    by (rule blockStats_const) (simp_all add: n bs sampleAt_def nth_append)
  have b1: "blockStats ?ab 1 = (\<bar>0\<bar>, \<bar>0\<bar>)"
    by (rule blockStats_const) (auto simp: n bs sampleAt_def nth_append)
  have upt: "[0..<2] = [0, Suc 0]" by (simp add: upt_rec)
  have points: "waveformPoints (analyseBlocks ?ab) = [0, 0]"
    using b0 b1 by (simp add: waveformPoints_analyseBlocks n upt)
  show ?thesis
    by (simp add: generateAdvancedWaveform_def Let_def points normalizedWaveform_def maxVal_def)
qed

subsection \<open>Beat detection\<close>

lemma analyseBlock_beats:
  "beats (analyseBlock audioBuffer a i) =
     (if snd (blockStats audioBuffer i) > previousEnergy a * (13 / 10)
         \<and> snd (blockStats audioBuffer i) > 1 / 10
      then beats a @
           [\<lparr>BeatData.time = (real i / real (samples audioBuffer)) * bufferDuration audioBuffer,
             strength = jsDivide (snd (blockStats audioBuffer i)) (previousEnergy a)\<rparr>]
      else beats a)"
  by (simp add: analyseBlock_def Let_def split: prod.splits)

lemma analyseBlock_previousEnergy:
  "previousEnergy (analyseBlock audioBuffer a i)
     = snd (blockStats audioBuffer i) * (7 / 10) + previousEnergy a * (3 / 10)"
  by (simp add: analyseBlock_def Let_def split: prod.splits)

lemma ratio_strength:
  assumes "0 < p" and "p * (13 / 10) < e"
  shows "jsDivide e p = Finite (e / p) \<and> 1 < e / p"
proof -
  from assms have "p < e" by linarith
  with assms(1) have "1 < e / p" by (simp add: less_divide_eq)
  with assms(1) show ?thesis by (simp add: jsDivide_def)
qed

lemma trigger_strength:
  assumes "0 \<le> p" and "p * (13 / 10) < e" and "1 / 10 < e"
  shows "jsDivide e p = PosInfinity \<or> (\<exists>r. jsDivide e p = Finite r \<and> 1 < r)"
proof (cases "p = 0")
  case True
  with assms(3) show ?thesis by (simp add: jsDivide_def)
next
  case False
  with assms(1) have "0 < p" by simp
  from ratio_strength [OF this assms(2)] show ?thesis by blast
qed

lemma beat_time_mono:
  assumes "0 \<le> bufferDuration audioBuffer" and "i \<le> k"
  shows "(real i / real (samples audioBuffer)) * bufferDuration audioBuffer
       \<le> (real k / real (samples audioBuffer)) * bufferDuration audioBuffer"
proof -
  from assms(2) have "real i / real (samples audioBuffer) \<le> real k / real (samples audioBuffer)"
    by (simp add: divide_right_mono)
  then show ?thesis using assms(1) by (rule mult_right_mono)
qed

lemma foldl_analyseBlock_beats:
  assumes "0 \<le> bufferDuration audioBuffer" and "sorted is"
    and "0 \<le> previousEnergy a"
    and "sorted (map BeatData.time (beats a))"
    and "\<forall>b \<in> set (beats a). \<forall>i \<in> set is.
           BeatData.time b \<le> (real i / real (samples audioBuffer)) * bufferDuration audioBuffer"
    and "\<forall>b \<in> set (beats a). strength b = PosInfinity \<or> (\<exists>r. strength b = Finite r \<and> 1 < r)"
  shows "sorted (map BeatData.time (beats (foldl (analyseBlock audioBuffer) a is)))
       \<and> (\<forall>b \<in> set (beats (foldl (analyseBlock audioBuffer) a is)).
             strength b = PosInfinity \<or> (\<exists>r. strength b = Finite r \<and> 1 < r))"
  using assms(2-)
proof (induction "is" arbitrary: a)
  case Nil
  then show ?case by simp
next
  case (Cons i "is")
  let ?e = "snd (blockStats audioBuffer i)"
  let ?t = "\<lambda>i. (real i / real (samples audioBuffer)) * bufferDuration audioBuffer"
  let ?a' = "analyseBlock audioBuffer a i"
  from blockStats_nonneg [of audioBuffer i] have e: "0 \<le> ?e" by simp
  from Cons.prems(1) have srt: "sorted is" and le: "\<forall>k \<in> set is. i \<le> k" by simp_all
  from e Cons.prems(2) have prev: "0 \<le> previousEnergy ?a'"
    by (simp add: analyseBlock_previousEnergy)
  have sorted': "sorted (map BeatData.time (beats ?a'))"
    using Cons.prems(3,4) by (auto simp: analyseBlock_beats sorted_append)
  have bound': "\<forall>b \<in> set (beats ?a'). \<forall>k \<in> set is. BeatData.time b \<le> ?t k"
  proof (intro ballI)
    fix b k assume b: "b \<in> set (beats ?a')" and k: "k \<in> set is"
    from b have "b \<in> set (beats a) \<or> BeatData.time b = ?t i"
      by (auto simp: analyseBlock_beats split: if_splits)
    then show "BeatData.time b \<le> ?t k"
    proof
      assume "b \<in> set (beats a)"
      with Cons.prems(4) k show ?thesis by simp
    next
      assume "BeatData.time b = ?t i"
      moreover from le k have "i \<le> k" by simp
      ultimately show ?thesis using beat_time_mono [OF assms(1)] by simp
    qed
  qed
  have strength': "\<forall>b \<in> set (beats ?a'). strength b = PosInfinity \<or> (\<exists>r. strength b = Finite r \<and> 1 < r)"
  proof
    fix b assume b: "b \<in> set (beats ?a')"
    show "strength b = PosInfinity \<or> (\<exists>r. strength b = Finite r \<and> 1 < r)"
    proof (cases "b \<in> set (beats a)")
      case True
      with Cons.prems(5) show ?thesis by blast
    next
      case False
      with b have trig: "previousEnergy a * (13 / 10) < ?e" "1 / 10 < ?e"
        and sb: "strength b = jsDivide ?e (previousEnergy a)"
        by (auto simp: analyseBlock_beats split: if_splits)
      from trigger_strength [OF Cons.prems(2) trig] sb show ?thesis by simp
    qed
  qed
  from Cons.IH [OF srt prev sorted' bound' strength'] show ?case by simp
qed

text \<open>
  C5. For a buffer whose duration is not negative, the times of the beat events are in
  ascending order: no event is earlier than the one before it. The strength of every
  event is either infinite, when the smoothed previous energy was 0, or a finite ratio
  greater than 1. In a turn of the loop that starts with a positive previous energy, an
  event that is emitted has the strength \<open>energy / previousEnergy\<close>, which is greater
  than 1.
\<close>

theorem beats_ascending_and_strong:
  assumes "0 \<le> bufferDuration audioBuffer"
  shows "sorted (map BeatData.time (beatData (generateAdvancedWaveform True (Inr audioBuffer) s)))
       \<and> (\<forall>b \<in> set (beatData (generateAdvancedWaveform True (Inr audioBuffer) s)).
             strength b = PosInfinity \<or> (\<exists>r. strength b = Finite r \<and> 1 < r))
       \<and> (\<forall>a i b. 0 < previousEnergy a \<and> beats (analyseBlock audioBuffer a i) = beats a @ [b]
             \<longrightarrow> strength b = Finite (snd (blockStats audioBuffer i) / previousEnergy a)
                 \<and> 1 < snd (blockStats audioBuffer i) / previousEnergy a)"
proof -
  have bd: "beatData (generateAdvancedWaveform True (Inr audioBuffer) s) = beats (analyseBlocks audioBuffer)"
    by (simp add: generateAdvancedWaveform_def Let_def)
  have "sorted (map BeatData.time (beats (analyseBlocks audioBuffer)))
      \<and> (\<forall>b \<in> set (beats (analyseBlocks audioBuffer)).
            strength b = PosInfinity \<or> (\<exists>r. strength b = Finite r \<and> 1 < r))"
    unfolding analyseBlocks_def
    by (rule foldl_analyseBlock_beats [OF assms]) simp_all
  moreover have "strength b = Finite (snd (blockStats audioBuffer i) / previousEnergy a)
        \<and> 1 < snd (blockStats audioBuffer i) / previousEnergy a"
    if "0 < previousEnergy a" and "beats (analyseBlock audioBuffer a i) = beats a @ [b]" for a i b
  proof -
    from that(2) have trig: "previousEnergy a * (13 / 10) < snd (blockStats audioBuffer i)"
      and sb: "strength b = jsDivide (snd (blockStats audioBuffer i)) (previousEnergy a)"
      by (auto simp: analyseBlock_beats split: if_splits)
    from ratio_strength [OF that(1) trig] sb show ?thesis by simp
  qed
  ultimately show ?thesis unfolding bd by blast
qed

theorem beats_ascending_and_strong_witness:
  "beatData (generateAdvancedWaveform True
      (Inr \<lparr>channelData = replicate 1024 (1 / 2) @ replicate 1024 1, bufferDuration = 2\<rparr>)
      \<lparr>waveformData = [], beatData = [], isLoadingWaveform = True\<rparr>)
   = [\<lparr>BeatData.time = 0, strength = PosInfinity\<rparr>, \<lparr>BeatData.time = 1, strength = Finite (20 / 7)\<rparr>]"
proof -
  let ?ab = "\<lparr>channelData = replicate 1024 (1 / 2) @ replicate 1024 1, bufferDuration = 2\<rparr>"
  let ?s = "\<lparr>waveformData = [], beatData = [], isLoadingWaveform = True\<rparr>"
  have d: "0 \<le> bufferDuration ?ab" by simp
  have n: "samples ?ab = 2" and bs: "blockSize ?ab = 1024"
    by (simp_all add: samples_def blockSize_def)
  have b0: "blockStats ?ab 0 = (\<bar>1 / 2\<bar>, \<bar>1 / 2\<bar>)"
    by (rule blockStats_const) (simp_all add: n bs sampleAt_def nth_append)
  have b1: "blockStats ?ab 1 = (\<bar>1\<bar>, \<bar>1\<bar>)"
    by (rule blockStats_const) (auto simp: n bs sampleAt_def nth_append)
  have upt: "[0..<2] = [0, Suc 0]" by (simp add: upt_rec)
  have ev: "beatData (generateAdvancedWaveform True (Inr ?ab) ?s)
      = [\<lparr>BeatData.time = 0, strength = PosInfinity\<rparr>, \<lparr>BeatData.time = 1, strength = Finite (20 / 7)\<rparr>]"
    using b0 b1
    by (simp add: generateAdvancedWaveform_def Let_def analyseBlocks_def analyseBlock_def n upt
        jsDivide_def)
  from beats_ascending_and_strong [OF d, of ?s]
  have "sorted (map BeatData.time (beatData (generateAdvancedWaveform True (Inr ?ab) ?s)))"
    by blast
  with ev show ?thesis by simp
qed

end
